theory Spec2Isabelle
  imports Main "HOL-Library.Word"
begin

unbundle bit_operations_syntax

section \<open>The 25LC512 EEPROM test program\<close>

text \<open>
  A shallow embedding of \<^verbatim>\<open>spi_25lc512x.c\<close>, the BeagleBone test program for the Microchip
  25LC512 EEPROM.
  The program talks to the chip through two library calls, \<open>libsoc_spi_rw\<close> (full duplex)
  and \<open>libsoc_spi_write\<close> (write only). The library and the chip behind it are not part
  of the program: they are a parameter of every function here, a record of two step
  functions over a device state of any type \<open>'d\<close>.
\<close>

subsection \<open>Constants\<close>

type_synonym u8 = "8 word"
type_synonym u16 = "16 word"

definition EXIT_SUCCESS :: int where "EXIT_SUCCESS = 0"
definition EXIT_FAILURE :: int where "EXIT_FAILURE = 1"

definition EEPROM_DEVICE_ID :: u8 where "EEPROM_DEVICE_ID = 0x29"
definition EEPROM_SIZE :: nat where "EEPROM_SIZE = 524288 div 8"
definition EEPROM_PAGE_SIZE :: nat where "EEPROM_PAGE_SIZE = 128"
definition EEPROM_NUM_PAGES :: nat where "EEPROM_NUM_PAGES = 524288 div 8 div 128"
definition EEPROM_WRITE_DELAY :: nat where "EEPROM_WRITE_DELAY = 3300000"
definition EEPROM_ERASE_DELAY :: nat where "EEPROM_ERASE_DELAY = 6800000"

definition WREN :: u8 where "WREN = 0x06"
definition WRDI :: u8 where "WRDI = 0x04"
definition WRITE :: u8 where "WRITE = 0x02"
definition READ :: u8 where "READ = 0x03"
definition CE :: u8 where "CE = 0xc7"
definition RDSR :: u8 where "RDSR = 0x05"
definition WRSR :: u8 where "WRSR = 0x01"
definition PE :: u8 where "PE = 0x42"
definition SE :: u8 where "SE = 0xd8"
definition RDID :: u8 where "RDID = 0xab"
definition DPD :: u8 where "DPD = 0xb9"

subsection \<open>What the program does to the outside world\<close>

text \<open>Every \<open>printf\<close> of the source, with the values it formats.\<close>

datatype msg =
    ReadingStatus
  | StatusIs u8
  | ReleasingPowerDown
  | SettingWriteEnable
  | EraseAllSectors
  | EraseInProgress
  | EraseFinished
  | PageSizeIs128
  | WritingToPage u16
  | WriteInProgress
  | WriteFinished
  | DeepPowerDown
  | FailedToGetSpidev
  | ReadingPage0
  | ExpectedFF u8
  | ReadAllBack
  | Miscompare u16 nat u8 u8
  | TestComplete
  | WrongDevice

text \<open>The library calls that move no byte on the bus.\<close>

datatype libcall =
    SetDebug
  | SpiInit
  | SetMode
  | GetMode
  | SetSpeed nat
  | GetSpeed
  | SetBitsPerWord
  | GetBitsPerWord
  | SpiFree

text \<open>
  The trace of a run, in program order. \<open>SpiWrite\<close> and \<open>SpiRw\<close> are the two transport
  calls, each with the bytes it puts on the bus.
\<close>

datatype event =
    SpiWrite "u8 list"
  | SpiRw "u8 list"
  | Nanosleep nat
  | Printf msg
  | Lib libcall

fun is_transport :: "event \<Rightarrow> bool" where
  "is_transport (SpiWrite f) = True"
| "is_transport (SpiRw f) = True"
| "is_transport e = False"

definition transport :: "event list \<Rightarrow> event list" where
  "transport es = filter is_transport es"

fun frame_of :: "event \<Rightarrow> u8 list" where
  "frame_of (SpiWrite f) = f"
| "frame_of (SpiRw f) = f"
| "frame_of e = []"

text \<open>
  The transport: \<open>rw\<close> sends a frame and yields the byte clocked in at each position,
  \<open>wr\<close> sends a frame; both move the device to its next state.
\<close>

record 'd spi =
  rw :: "'d \<Rightarrow> u8 list \<Rightarrow> (nat \<Rightarrow> u8) \<times> 'd"
  wr :: "'d \<Rightarrow> u8 list \<Rightarrow> 'd"

subsection \<open>Program state\<close>

text \<open>
  The file-scope variables \<open>tx\<close>, \<open>rx\<close> (each \<open>EEPROM_PAGE_SIZE + 3\<close> bytes) and
  \<open>status\<close>, the device behind the handle, and the trace so far.
\<close>

record 'd state =
  tx :: "u8 list"
  rx :: "u8 list"
  status :: u8
  dev :: 'd
  trace :: "event list"

definition BUF_SIZE :: nat where "BUF_SIZE = EEPROM_PAGE_SIZE + 3"

definition wf_state :: "'d state \<Rightarrow> bool" where
  "wf_state s = (length (tx s) = BUF_SIZE \<and> length (rx s) = BUF_SIZE)"

text \<open>
  How a call ends when it does not return: an index outside an array (undefined in C),
  or a busy-wait that used up the polls it was given.
\<close>

datatype buffer = TX | RX | DATA | DATA_READ

datatype stop = OutOfBounds buffer nat | OutOfFuel

definition load :: "u8 list \<Rightarrow> nat \<Rightarrow> u8 option" where
  "load xs i = (if i < length xs then Some (xs ! i) else None)"

definition store :: "u8 list \<Rightarrow> nat \<Rightarrow> u8 \<Rightarrow> u8 list option" where
  "store xs i v = (if i < length xs then Some (xs[i := v]) else None)"

definition printf :: "msg \<Rightarrow> 'd state \<Rightarrow> 'd state" where
  "printf m s = s\<lparr>trace := trace s @ [Printf m]\<rparr>"

definition nanosleep :: "nat \<Rightarrow> 'd state \<Rightarrow> 'd state" where
  "nanosleep ns s = s\<lparr>trace := trace s @ [Nanosleep ns]\<rparr>"

definition libcall :: "libcall \<Rightarrow> 'd state \<Rightarrow> 'd state" where
  "libcall c s = s\<lparr>trace := trace s @ [Lib c]\<rparr>"

definition set_tx :: "nat \<Rightarrow> u8 \<Rightarrow> 'd state \<Rightarrow> 'd state" where
  "set_tx i v s = s\<lparr>tx := (tx s)[i := v]\<rparr>"

definition set_rx :: "nat \<Rightarrow> u8 \<Rightarrow> 'd state \<Rightarrow> 'd state" where
  "set_rx i v s = s\<lparr>rx := (rx s)[i := v]\<rparr>"

text \<open>
  \<open>libsoc_spi_write(spi_dev, tx, n)\<close> and \<open>libsoc_spi_rw(spi_dev, tx, rx, n)\<close>: the first
  \<open>n\<close> bytes of \<open>tx\<close> go out; \<open>rw\<close> stores the bytes that come back in the first \<open>n\<close>
  places of \<open>rx\<close>. The count is the C \<open>int\<close> the caller computes. The model moves the
  bytes the arrays hold: a count past the end of the array is cut there, a negative one
  moves nothing.
\<close>

definition libsoc_spi_write :: "'d spi \<Rightarrow> int \<Rightarrow> 'd state \<Rightarrow> 'd state" where
  "libsoc_spi_write T n s =
     (let frame = take (nat n) (tx s)
      in s\<lparr>dev := wr T (dev s) frame, trace := trace s @ [SpiWrite frame]\<rparr>)"

definition libsoc_spi_rw :: "'d spi \<Rightarrow> int \<Rightarrow> 'd state \<Rightarrow> 'd state" where
  "libsoc_spi_rw T n s =
     (let frame = take (nat n) (tx s);
          reply = rw T (dev s) frame
      in s\<lparr>rx := map (fst reply) [0..<length frame] @ drop (length frame) (rx s),
            dev := snd reply,
            trace := trace s @ [SpiRw frame]\<rparr>)"

subsection \<open>One function per opcode\<close>

definition read_status_register :: "'d spi \<Rightarrow> 'd state \<Rightarrow> u8 \<times> 'd state" where
  "read_status_register T s =
     (let s1 = printf ReadingStatus s;
          s2 = set_rx 1 0 (set_rx 0 0 (set_tx 1 0 (set_tx 0 RDSR s1)));
          s3 = libsoc_spi_rw T 2 s2;
          s4 = printf (StatusIs (rx s3 ! 1)) s3
      in (rx s4 ! 1, s4))"

definition release_pwrdwn_read_sig :: "'d spi \<Rightarrow> 'd state \<Rightarrow> u8 \<times> 'd state" where
  "release_pwrdwn_read_sig T s =
     (let s1 = printf ReleasingPowerDown s;
          s2 = set_tx 3 0 (set_tx 2 0 (set_tx 1 0 (set_tx 0 RDID s1)));
          s3 = set_rx 3 0 (set_rx 2 0 (set_rx 1 0 (set_rx 0 0 s2)));
          s4 = libsoc_spi_rw T 4 s3;
          s5 = printf (StatusIs (rx s4 ! 3)) s4
      in (rx s5 ! 3, s5))"

definition set_write_enable :: "'d spi \<Rightarrow> 'd state \<Rightarrow> int \<times> 'd state" where
  "set_write_enable T s =
     (EXIT_SUCCESS, libsoc_spi_write T 1 (printf SettingWriteEnable (set_tx 0 WREN s)))"

text \<open>
  The \<open>do ... while (status & 0x1)\<close> loop that ends \<open>erase_device\<close> and \<open>write_page\<close>;
  the two copies differ in the two messages only. The loop has no bound in the source:
  \<open>fuel\<close> is the number of polls the model lets it make, and a loop still busy after that
  many stops with \<open>OutOfFuel\<close>, keeping the state (and trace) it has reached.
\<close>

fun busy_wait :: "'d spi \<Rightarrow> msg \<Rightarrow> msg \<Rightarrow> nat \<Rightarrow> 'd state \<Rightarrow> (stop + unit) \<times> 'd state" where
  "busy_wait T busy done 0 s = (Inl OutOfFuel, s)"
| "busy_wait T busy done (Suc fuel) s =
     (let r = read_status_register T s;
          s1 = (snd r)\<lparr>status := fst r\<rparr>
      in if status s1 AND 0x01 \<noteq> 0
         then busy_wait T busy done fuel (printf busy s1)
         else (Inr (), printf done s1))"

text \<open>\<open>erase_device\<close> up to and including the \<open>nanosleep\<close>, then the whole function.\<close>

definition erase_issue :: "'d spi \<Rightarrow> 'd state \<Rightarrow> 'd state" where
  "erase_issue T s =
     (let s1 = snd (set_write_enable T s);
          s2 = printf EraseAllSectors (set_tx 0 CE s1);
          s3 = libsoc_spi_write T 1 s2
      in nanosleep EEPROM_ERASE_DELAY s3)"

definition erase_device :: "'d spi \<Rightarrow> nat \<Rightarrow> 'd state \<Rightarrow> (stop + int) \<times> 'd state" where
  "erase_device T fuel s =
     (case busy_wait T EraseInProgress EraseFinished fuel (erase_issue T s) of
        (Inl e, s') \<Rightarrow> (Inl e, s')
      | (Inr u, s') \<Rightarrow> (Inr EXIT_SUCCESS, s'))"

text \<open>
  The copy loop of \<open>write_page\<close>: \<open>tx[i+3] = data[i]\<close> for \<open>i\<close> from 0 below \<open>len\<close>.
  \<open>len\<close> is the C \<open>int\<close> the caller passes, negative values included. The counter
  starts at 0 and is only ever increased by one, so it is a natural number here; it stays
  far below the range of \<open>int\<close>, since the loop stops at the end of an array at the latest.
  Each array access is checked against the length of the array.
\<close>

function write_page_copy :: "u8 list \<Rightarrow> int \<Rightarrow> nat \<Rightarrow> u8 list \<Rightarrow> stop + u8 list" where
  "write_page_copy data len i txb =
     (if int i < len then
        (case load data i of
           None \<Rightarrow> Inl (OutOfBounds DATA i)
         | Some b \<Rightarrow>
             (case store txb (i + 3) b of
                None \<Rightarrow> Inl (OutOfBounds TX (i + 3))
              | Some txb' \<Rightarrow> write_page_copy data len (i + 1) txb'))
      else Inr txb)"
  by pat_completeness auto
termination
  by (relation "measure (\<lambda>(data, len, i, txb). nat len - i)") auto

text \<open>
  \<open>write_page\<close> after the length check, up to and including the \<open>nanosleep\<close>: the
  multiplication is done in the 16-bit parameter, \<open>tx[1]\<close> and \<open>tx[2]\<close> keep the low
  eight bits of what is assigned to them.
\<close>

definition write_issue ::
    "'d spi \<Rightarrow> u16 \<Rightarrow> u8 list \<Rightarrow> int \<Rightarrow> 'd state \<Rightarrow> (stop + unit) \<times> 'd state" where
  "write_issue T page_address data len s =
     (let s1 = snd (set_write_enable T s);
          s2 = printf (WritingToPage page_address) s1;
          pa = page_address * 128;
          s3 = set_tx 2 (ucast pa) (set_tx 1 (ucast (drop_bit 8 pa)) (set_tx 0 WRITE s2))
      in case write_page_copy data len 0 (tx s3) of
           Inl e \<Rightarrow> (Inl e, s3)
         | Inr txb \<Rightarrow>
             (Inr (), nanosleep EEPROM_WRITE_DELAY (libsoc_spi_write T (len + 3) (s3\<lparr>tx := txb\<rparr>))))"

definition write_page ::
    "'d spi \<Rightarrow> nat \<Rightarrow> u16 \<Rightarrow> u8 list \<Rightarrow> int \<Rightarrow> 'd state \<Rightarrow> (stop + int) \<times> 'd state" where
  "write_page T fuel page_address data len s =
     (if len > int EEPROM_PAGE_SIZE then (Inr EXIT_FAILURE, printf PageSizeIs128 s)
      else
        (case write_issue T page_address data len s of
           (Inl e, s1) \<Rightarrow> (Inl e, s1)
         | (Inr u, s1) \<Rightarrow>
             (case busy_wait T WriteInProgress WriteFinished fuel s1 of
                (Inl e, s') \<Rightarrow> (Inl e, s')
              | (Inr v, s') \<Rightarrow> (Inr EXIT_SUCCESS, s'))))"

text \<open>The copy loop of \<open>read_page\<close>: \<open>data[i] = rx[i+3]\<close> for \<open>i\<close> from 0 below \<open>len\<close>.\<close>

function read_page_copy :: "int \<Rightarrow> nat \<Rightarrow> u8 list \<Rightarrow> u8 list \<Rightarrow> stop + u8 list" where
  "read_page_copy len i rxb data =
     (if int i < len then
        (case load rxb (i + 3) of
           None \<Rightarrow> Inl (OutOfBounds RX (i + 3))
         | Some b \<Rightarrow>
             (case store data i b of
                None \<Rightarrow> Inl (OutOfBounds DATA i)
              | Some data' \<Rightarrow> read_page_copy len (i + 1) rxb data'))
      else Inr data)"
  by pat_completeness auto
termination
  by (relation "measure (\<lambda>(len, i, rxb, data). nat len - i)") auto

text \<open>
  \<open>read_page\<close> checks nothing. It returns the caller's buffer as the copy loop leaves it
  (as it found it, when the loop stops at an index outside an array).
\<close>

definition read_page ::
    "'d spi \<Rightarrow> u16 \<Rightarrow> u8 list \<Rightarrow> int \<Rightarrow> 'd state \<Rightarrow> (stop + int) \<times> u8 list \<times> 'd state" where
  "read_page T page_address data len s =
     (let s1 = set_tx 0 READ s;
          pa = page_address * 128;
          s2 = set_tx 2 (ucast pa) (set_tx 1 (ucast (drop_bit 8 pa)) s1);
          s3 = libsoc_spi_rw T (len + 3) s2
      in case read_page_copy len 0 (rx s3) data of
           Inl e \<Rightarrow> (Inl e, data, s3)
         | Inr data' \<Rightarrow> (Inr EXIT_SUCCESS, data', s3))"

definition set_deep_power_down :: "'d spi \<Rightarrow> 'd state \<Rightarrow> int \<times> 'd state" where
  "set_deep_power_down T s =
     (EXIT_SUCCESS, libsoc_spi_write T 1 (printf DeepPowerDown (set_tx 0 DPD s)))"

subsection \<open>main\<close>

text \<open>
  The state when \<open>main\<close> has got its handle and configured it: the static arrays and
  \<open>status\<close> are zero, the library calls made so far are in the trace.
\<close>

definition startup :: "'d \<Rightarrow> 'd state" where
  "startup d =
     \<lparr>tx = replicate BUF_SIZE 0, rx = replicate BUF_SIZE 0, status = 0, dev = d,
      trace = [Lib SetDebug, Lib SpiInit, Lib SetMode, Lib GetMode, Lib (SetSpeed 10000000),
               Lib GetSpeed, Lib SetBitsPerWord, Lib GetBitsPerWord]\<rparr>"

text \<open>The test pattern, \<open>data[i] = i\<close> for the 128 bytes of a page.\<close>

definition pattern :: "u8 list" where
  "pattern = map word_of_nat [0..<EEPROM_PAGE_SIZE]"

text \<open>
  \<open>data_read\<close> is an uninitialised local array of 128 bytes; \<open>main\<close> reads a byte of
  it only after \<open>read_page\<close> has stored one there, so the model starts it at zero.
\<close>

definition data_read0 :: "u8 list" where
  "data_read0 = replicate EEPROM_PAGE_SIZE 0"

text \<open>\<open>status = release_pwrdwn_read_sig(spi_dev)\<close>, from the state \<open>startup\<close> leaves.\<close>

definition identify :: "'d spi \<Rightarrow> 'd \<Rightarrow> 'd state" where
  "identify T d =
     (let r = release_pwrdwn_read_sig T (startup d) in (snd r)\<lparr>status := fst r\<rparr>)"

text \<open>The loop that writes every page; the value \<open>write_page\<close> returns is not looked at.\<close>

function write_all ::
    "'d spi \<Rightarrow> nat \<Rightarrow> u8 list \<Rightarrow> int \<Rightarrow> u16 \<Rightarrow> 'd state \<Rightarrow> (stop + unit) \<times> 'd state" where
  "write_all T fuel data len page s =
     (if unat page < EEPROM_NUM_PAGES then
        (case write_page T fuel page data len s of
           (Inl e, s') \<Rightarrow> (Inl e, s')
         | (Inr r, s') \<Rightarrow> write_all T fuel data len (page + 1) s')
      else (Inr (), s))"
  by pat_completeness auto
termination
  by (relation "measure (\<lambda>(T, fuel, data, len, page, s). EEPROM_NUM_PAGES - unat page)")
     (auto simp: EEPROM_NUM_PAGES_def unat_word_ariths)

text \<open>The comparison of one page read back with the pattern: a message for each byte that differs.\<close>

function compare ::
    "u16 \<Rightarrow> u8 list \<Rightarrow> u8 list \<Rightarrow> int \<Rightarrow> nat \<Rightarrow> 'd state \<Rightarrow> (stop + unit) \<times> 'd state" where
  "compare page data data_read len i s =
     (if int i < len then
        (case load data i of
           None \<Rightarrow> (Inl (OutOfBounds DATA i), s)
         | Some a \<Rightarrow>
             (case load data_read i of
                None \<Rightarrow> (Inl (OutOfBounds DATA_READ i), s)
              | Some b \<Rightarrow>
                  compare page data data_read len (i + 1)
                    (if a \<noteq> b then printf (Miscompare page i a b) s else s)))
      else (Inr (), s))"
  by pat_completeness auto
termination
  by (relation "measure (\<lambda>(page, data, data_read, len, i, s). nat len - i)") auto

text \<open>The loop that reads every page back and compares it.\<close>

function read_all ::
    "'d spi \<Rightarrow> u8 list \<Rightarrow> int \<Rightarrow> u16 \<Rightarrow> u8 list \<Rightarrow> 'd state \<Rightarrow> (stop + unit) \<times> 'd state" where
  "read_all T data len page data_read s =
     (if unat page < EEPROM_NUM_PAGES then
        (case read_page T page data_read len s of
           (Inl e, data_read', s') \<Rightarrow> (Inl e, s')
         | (Inr r, data_read', s') \<Rightarrow>
             (case compare page data data_read' len 0 s' of
                (Inl e, s'') \<Rightarrow> (Inl e, s'')
              | (Inr u, s'') \<Rightarrow> read_all T data len (page + 1) data_read' s''))
      else (Inr (), s))"
  by pat_completeness auto
termination
  by (relation "measure (\<lambda>(T, data, len, page, data_read, s). EEPROM_NUM_PAGES - unat page)")
     (auto simp: EEPROM_NUM_PAGES_def unat_word_ariths)

text \<open>
  \<open>main\<close>: the handle \<open>libsoc_spi_init\<close> returns is \<open>None\<close> for \<open>NULL\<close>. The result is
  what the process leaves behind: how it ended (the exit status, when it returned) and the
  trace.
\<close>

definition main :: "'d spi \<Rightarrow> nat \<Rightarrow> 'd option \<Rightarrow> (stop + int) \<times> event list" where
  "main T fuel spi_dev =
     (case spi_dev of
        None \<Rightarrow> (Inr EXIT_FAILURE, [Lib SetDebug, Lib SpiInit, Printf FailedToGetSpidev])
      | Some d \<Rightarrow>
          (let s1 = identify T d in
           if status s1 = EEPROM_DEVICE_ID then
             (case erase_device T fuel s1 of
                (Inl e, s2) \<Rightarrow> (Inl e, trace s2)
              | (Inr r, s2) \<Rightarrow>
                  (case read_page T 0 data_read0 1 (printf ReadingPage0 s2) of
                     (Inl e, dr, s3) \<Rightarrow> (Inl e, trace s3)
                   | (Inr r, dr, s3) \<Rightarrow>
                       if dr ! 0 \<noteq> 0xFF
                       then (Inr EXIT_FAILURE,
                             trace (libcall SpiFree (printf (ExpectedFF (dr ! 0)) s3)))
                       else
                         (case write_all T fuel pattern (int EEPROM_PAGE_SIZE) 0 s3 of
                            (Inl e, s4) \<Rightarrow> (Inl e, trace s4)
                          | (Inr u, s4) \<Rightarrow>
                              (case read_all T pattern (int EEPROM_PAGE_SIZE) 0 dr
                                      (printf ReadAllBack s4) of
                                 (Inl e, s5) \<Rightarrow> (Inl e, trace s5)
                               | (Inr u, s5) \<Rightarrow>
                                   (Inr EXIT_SUCCESS,
                                    trace (libcall SpiFree
                                      (snd (set_deep_power_down T (printf TestComplete s5)))))))))
           else (Inr EXIT_FAILURE,
                 trace (libcall SpiFree (snd (set_deep_power_down T (printf WrongDevice s1)))))))"

subsection \<open>Observations on a run\<close>

text \<open>The events that matter for timing: the transport calls and the sleeps.\<close>

fun is_sleep :: "event \<Rightarrow> bool" where
  "is_sleep (Nanosleep ns) = True"
| "is_sleep e = False"

definition timing :: "event list \<Rightarrow> event list" where
  "timing es = filter (\<lambda>e. is_transport e \<or> is_sleep e) es"

text \<open>The status byte the device gives at the poll after \<open>n\<close> earlier polls, from device state \<open>d\<close>.\<close>

fun status_after :: "'d spi \<Rightarrow> nat \<Rightarrow> 'd \<Rightarrow> u8" where
  "status_after T 0 d = fst (rw T d [RDSR, 0]) 1"
| "status_after T (Suc n) d = status_after T n (snd (rw T d [RDSR, 0]))"

text \<open>The number of polls a busy-wait with \<open>fuel\<close> makes from device state \<open>d\<close>.\<close>

fun polls :: "'d spi \<Rightarrow> nat \<Rightarrow> 'd \<Rightarrow> nat" where
  "polls T 0 d = 0"
| "polls T (Suc fuel) d =
     (if fst (rw T d [RDSR, 0]) 1 AND 0x01 \<noteq> 0
      then Suc (polls T fuel (snd (rw T d [RDSR, 0])))
      else 1)"

text \<open>
  The byte \<open>main\<close> looks at after the erase: \<open>data_read[0]\<close> when
  \<open>read_page(spi_dev, 0, data_read, 1)\<close> has run in the state \<open>erase_device\<close> left.
\<close>

definition erase_check_byte :: "'d spi \<Rightarrow> nat \<Rightarrow> 'd \<Rightarrow> u8" where
  "erase_check_byte T fuel d =
     (let s2 = snd (erase_device T fuel (identify T d));
          r = read_page T 0 data_read0 1 (printf ReadingPage0 s2)
      in fst (snd r) ! 0)"

text \<open>The miscompare messages of a trace, in the order they were printed.\<close>

fun is_miscompare :: "event \<Rightarrow> bool" where
  "is_miscompare (Printf (Miscompare page i a b)) = True"
| "is_miscompare e = False"

definition miscompares :: "event list \<Rightarrow> event list" where
  "miscompares es = filter is_miscompare es"

text \<open>
  What reading back \<open>n\<close> pages from page \<open>p\<close> on should print, told from the device alone.
  For each page the device in state \<open>d\<close> is sent the read opcode, the two address bytes and
  128 more bytes (the pattern, which the last page write left in \<open>tx\<close>); the byte it
  answers at position \<open>j + 3\<close> is byte \<open>j\<close> of the page, and each byte that differs from
  the pattern gets its message.
\<close>

fun readback_log :: "'d spi \<Rightarrow> nat \<Rightarrow> nat \<Rightarrow> 'd \<Rightarrow> event list" where
  "readback_log T 0 p d = []"
| "readback_log T (Suc n) p d =
     (let page = (word_of_nat p :: u16);
          r = rw T d (READ # ucast (drop_bit 8 (page * 128)) # ucast (page * 128) # pattern)
      in map (\<lambda>j. Printf (Miscompare page j (pattern ! j) (fst r (j + 3))))
           (filter (\<lambda>j. pattern ! j \<noteq> fst r (j + 3)) [0..<EEPROM_PAGE_SIZE])
         @ readback_log T n (Suc p) (snd r))"

text \<open>The state in which the loop that writes every page leaves off.\<close>

definition after_writes :: "'d spi \<Rightarrow> nat \<Rightarrow> 'd \<Rightarrow> 'd state" where
  "after_writes T fuel d =
     (let s2 = snd (erase_device T fuel (identify T d));
          s3 = snd (snd (read_page T 0 data_read0 1 (printf ReadingPage0 s2)))
      in snd (write_all T fuel pattern (int EEPROM_PAGE_SIZE) 0 s3))"

text \<open>
  A transport call needs the write-enable latch when its frame starts with the chip-erase
  or the write opcode. \<open>wren_guarded prev es\<close>: in the list \<open>es\<close> of transport calls, which
  follows the call \<open>prev\<close> (if any), each call that needs the latch comes directly after a
  call that sends the write-enable opcode and nothing else.
\<close>

fun needs_wren :: "event \<Rightarrow> bool" where
  "needs_wren e = (case frame_of e of [] \<Rightarrow> False | opc # rest \<Rightarrow> opc = CE \<or> opc = WRITE)"

fun wren_guarded :: "event option \<Rightarrow> event list \<Rightarrow> bool" where
  "wren_guarded prev [] = True"
| "wren_guarded prev (e # es) =
     ((needs_wren e \<longrightarrow> prev = Some (SpiWrite [WREN])) \<and> wren_guarded (Some e) es)"

text \<open>
  The policy as the specification words it: no status poll follows another without a sleep
  between the two.
\<close>

fun is_poll :: "event \<Rightarrow> bool" where
  "is_poll (SpiRw f) = (f = [RDSR, 0])"
| "is_poll e = False"

fun no_adjacent_polls :: "event list \<Rightarrow> bool" where
  "no_adjacent_polls (e # e' # es) = (\<not> (is_poll e \<and> is_poll e') \<and> no_adjacent_polls (e' # es))"
| "no_adjacent_polls es = True"

definition sleep_between_polls :: "event list \<Rightarrow> bool" where
  "sleep_between_polls es = no_adjacent_polls (timing es)"

text \<open>
  A device is responsive within \<open>fuel\<close> polls when, after any write-only frame, one of the
  next \<open>fuel\<close> status polls finds the busy bit clear.
\<close>

definition responsive :: "'d spi \<Rightarrow> nat \<Rightarrow> bool" where
  "responsive T fuel = (\<forall>d f. \<exists>n<fuel. status_after T n (wr T d f) AND 0x01 = 0)"

subsection \<open>A mock chip\<close>

text \<open>
  The device state is a countdown. Every write-only frame sets it to \<open>k\<close>; every full-duplex
  frame takes one off. The chip answers a signature request with \<open>sig\<close>, a status poll with
  the busy bit set while the countdown is running, and any other frame with \<open>fill\<close>, at
  every position.
\<close>

definition mock :: "u8 \<Rightarrow> u8 \<Rightarrow> nat \<Rightarrow> nat spi" where
  "mock sig fill k =
     \<lparr>rw = (\<lambda>d f. (\<lambda>i. if hd f = RDID then sig
                        else if hd f = RDSR then (if 0 < d then 1 else 0)
                        else fill,
                    d - 1)),
      wr = (\<lambda>d f. k)\<rparr>"

section \<open>Properties\<close>

lemmas opcode_defs =
  WREN_def WRDI_def WRITE_def READ_def CE_def RDSR_def WRSR_def PE_def SE_def RDID_def DPD_def

subsection \<open>Auxiliary facts\<close>

declare write_page_copy.simps [simp del] read_page_copy.simps [simp del] compare.simps [simp del]
  write_all.simps [simp del] read_all.simps [simp del]

lemma nth_map_upt_append: "i < n \<Longrightarrow> (map f [0..<n] @ ys) ! i = f i"
  by (simp add: nth_append)

lemma frame1: "0 < length xs \<Longrightarrow> take (Suc 0) (xs[0 := a]) = [a]"
  by (cases xs) auto

lemma frame2: "2 \<le> length xs \<Longrightarrow> take 2 (xs[0 := a, Suc 0 := b]) = [a, b]"
  by (auto simp: eval_nat_numeral Suc_le_length_iff)

lemma frame4: "4 \<le> length xs \<Longrightarrow> take 4 (xs[0 := a, Suc 0 := b, 2 := c, 3 := d]) = [a, b, c, d]"
  by (auto simp: eval_nat_numeral Suc_le_length_iff)

lemma wf_simps [simp]:
  "wf_state (printf m s) = wf_state s" "wf_state (nanosleep n s) = wf_state s" "wf_state (libcall c s) = wf_state s"
  "wf_state (set_tx i v s) = wf_state s" "wf_state (set_rx i v s) = wf_state s"
  "wf_state (libsoc_spi_write T k s) = wf_state s"
  "wf_state (s\<lparr>status := b\<rparr>) = wf_state s"
  by (simp_all add: wf_state_def printf_def nanosleep_def libcall_def set_tx_def set_rx_def libsoc_spi_write_def Let_def)

lemma wf_rw [simp]: "wf_state s \<Longrightarrow> wf_state (libsoc_spi_rw T k s)"
  by (auto simp: wf_state_def libsoc_spi_rw_def Let_def)

lemma wf_len: "wf_state s \<Longrightarrow> length (tx s) = 131 \<and> length (rx s) = 131"
  by (simp add: wf_state_def BUF_SIZE_def EEPROM_PAGE_SIZE_def)

lemmas step_defs = printf_def nanosleep_def libcall_def set_tx_def set_rx_def
  libsoc_spi_write_def libsoc_spi_rw_def Let_def

lemma rsr_wf: "wf_state s \<Longrightarrow> wf_state (snd (read_status_register T s))"
  by (simp add: read_status_register_def Let_def)

lemma rsr_eq: "wf_state s \<Longrightarrow> read_status_register T s =
   (fst (rw T (dev s) [RDSR, 0]) 1,
    s\<lparr>tx := (tx s)[0 := RDSR, 1 := 0],
      rx := map (fst (rw T (dev s) [RDSR, 0])) [0..<2] @ drop 2 (rx s),
      dev := snd (rw T (dev s) [RDSR, 0]),
      trace := trace s @ [Printf ReadingStatus, SpiRw [RDSR, 0],
                 Printf (StatusIs (fst (rw T (dev s) [RDSR, 0]) 1))]\<rparr>)"
  by (frule wf_len) (simp add: read_status_register_def step_defs frame2 nth_map_upt_append)

lemma sig_eq: "wf_state s \<Longrightarrow> release_pwrdwn_read_sig T s =
   (fst (rw T (dev s) [RDID, 0, 0, 0]) 3,
    s\<lparr>tx := (tx s)[0 := RDID, 1 := 0, 2 := 0, 3 := 0],
      rx := map (fst (rw T (dev s) [RDID, 0, 0, 0])) [0..<4] @ drop 4 (rx s),
      dev := snd (rw T (dev s) [RDID, 0, 0, 0]),
      trace := trace s @ [Printf ReleasingPowerDown, SpiRw [RDID, 0, 0, 0],
                 Printf (StatusIs (fst (rw T (dev s) [RDID, 0, 0, 0]) 3))]\<rparr>)"
  by (frule wf_len) (simp add: release_pwrdwn_read_sig_def step_defs frame4 nth_map_upt_append)

lemma dpd_eq: "wf_state s \<Longrightarrow> set_deep_power_down T s =
   (EXIT_SUCCESS, s\<lparr>tx := (tx s)[0 := DPD], dev := wr T (dev s) [DPD],
      trace := trace s @ [Printf DeepPowerDown, SpiWrite [DPD]]\<rparr>)"
  by (frule wf_len) (simp add: set_deep_power_down_def step_defs frame1)

lemma erase_issue_eq: "wf_state s \<Longrightarrow> erase_issue T s =
   s\<lparr>tx := (tx s)[0 := CE], dev := wr T (wr T (dev s) [WREN]) [CE],
      trace := trace s @ [Printf SettingWriteEnable, SpiWrite [WREN], Printf EraseAllSectors,
                 SpiWrite [CE], Nanosleep EEPROM_ERASE_DELAY]\<rparr>"
  by (frule wf_len) (simp add: erase_issue_def set_write_enable_def step_defs frame1)

lemma timing_simps [simp]:
  "timing [] = []"
  "timing (xs @ ys) = timing xs @ timing ys"
  "timing (SpiWrite f # es) = SpiWrite f # timing es"
  "timing (SpiRw f # es) = SpiRw f # timing es"
  "timing (Nanosleep n # es) = Nanosleep n # timing es"
  "timing (Printf m # es) = timing es"
  "timing (Lib c # es) = timing es"
  by (simp_all add: timing_def)

lemma transport_simps [simp]:
  "transport [] = []"
  "transport (xs @ ys) = transport xs @ transport ys"
  "transport (SpiWrite f # es) = SpiWrite f # transport es"
  "transport (SpiRw f # es) = SpiRw f # transport es"
  "transport (Nanosleep n # es) = transport es"
  "transport (Printf m # es) = transport es"
  "transport (Lib c # es) = transport es"
  by (simp_all add: transport_def)

lemma busy_wait_wf: "wf_state s \<Longrightarrow> wf_state (snd (busy_wait T a b fuel s))"
proof (induction fuel arbitrary: s)
  case 0
  then show ?case by simp
next
  case (Suc fuel)
  from Suc.prems have "wf_state (printf a ((snd (read_status_register T s))\<lparr>status := fst (read_status_register T s)\<rparr>))"
    by (simp add: rsr_wf)
  from Suc.IH [OF this] Suc.prems show ?case
    by (simp add: Let_def rsr_wf)
qed

lemma busy_wait_timing:
  "wf_state s \<Longrightarrow> timing (trace (snd (busy_wait T a b fuel s))) =
     timing (trace s) @ replicate (polls T fuel (dev s)) (SpiRw [RDSR, 0])"
proof (induction fuel arbitrary: s)
  case 0
  then show ?case by simp
next
  case (Suc fuel)
  let ?s1 = "printf a ((snd (read_status_register T s))\<lparr>status := fst (read_status_register T s)\<rparr>)"
  have w: "wf_state ?s1" using Suc.prems by (simp add: rsr_wf)
  show ?case
    using Suc.IH [OF w] Suc.prems
    by (simp add: Let_def rsr_eq printf_def replicate_append_same)
qed

lemma busy_wait_transport:
  "wf_state s \<Longrightarrow> transport (trace (snd (busy_wait T a b fuel s))) =
     transport (trace s) @ replicate (polls T fuel (dev s)) (SpiRw [RDSR, 0])"
proof (induction fuel arbitrary: s)
  case 0
  then show ?case by simp
next
  case (Suc fuel)
  let ?s1 = "printf a ((snd (read_status_register T s))\<lparr>status := fst (read_status_register T s)\<rparr>)"
  have w: "wf_state ?s1" using Suc.prems by (simp add: rsr_wf)
  show ?case
    using Suc.IH [OF w] Suc.prems
    by (simp add: Let_def rsr_eq printf_def replicate_append_same)
qed

lemma busy_wait_returns:
  "wf_state s \<Longrightarrow> status_after T n (dev s) AND 0x01 = 0 \<Longrightarrow> n < fuel \<Longrightarrow>
     \<exists>s'. busy_wait T a b fuel s = (Inr (), s') \<and> status s' AND 0x01 = 0"
proof (induction fuel arbitrary: s n)
  case 0
  then show ?case by simp
next
  case (Suc fuel)
  let ?b = "fst (rw T (dev s) [RDSR, 0]) 1"
  let ?s1 = "printf a ((snd (read_status_register T s))\<lparr>status := fst (read_status_register T s)\<rparr>)"
  have w: "wf_state ?s1" using Suc.prems by (simp add: rsr_wf)
  show ?case
  proof (cases "?b AND 0x01 = 0")
    case True
    with Suc.prems show ?thesis by (simp add: Let_def rsr_eq printf_def)
  next
    case False
    with Suc.prems obtain m where n: "n = Suc m" by (cases n) auto
    have d: "dev ?s1 = snd (rw T (dev s) [RDSR, 0])" using Suc.prems by (simp add: rsr_eq printf_def)
    from Suc.prems n d have "status_after T m (dev ?s1) AND 0x01 = 0" "m < fuel" by simp_all
    from Suc.IH [OF w this] False Suc.prems show ?thesis
      by (simp add: Let_def rsr_eq printf_def)
  qed
qed

lemma busy_wait_fst: "fst (busy_wait T a b fuel s) = Inl OutOfFuel \<or> fst (busy_wait T a b fuel s) = Inr ()"
  by (induction fuel arbitrary: s) (simp_all add: Let_def)


lemma frame3: "3 \<le> length xs \<Longrightarrow> take 3 (xs[0 := a, Suc 0 := b, 2 := c]) = [a, b, c]"
  by (auto simp: eval_nat_numeral Suc_le_length_iff)

lemma take_Suc_update: "k < length xs \<Longrightarrow> take (Suc k) (xs[k := v]) = take k xs @ [v]"
  by (simp add: take_Suc_conv_app_nth)

lemma write_page_copy_eq:
  "i \<le> nat len \<Longrightarrow> nat len \<le> length data \<Longrightarrow> nat len + 3 \<le> length txb \<Longrightarrow>
     write_page_copy data len i txb =
       Inr (take (i + 3) txb @ drop i (take (nat len) data) @ drop (nat len + 3) txb)"
proof (induction data len i txb rule: write_page_copy.induct)
  case (1 data len i txb)
  show ?case
  proof (cases "int i < len")
    case False
    with "1.prems" have "i = nat len" by simp
    with "1.prems" False show ?thesis
      by (subst write_page_copy.simps) simp
  next
    case True
    then have il: "i < nat len" by simp
    with "1.prems" have ld: "load data i = Some (data ! i)"
      and st: "store txb (i + 3) (data ! i) = Some (txb[i + 3 := data ! i])"
      by (simp_all add: load_def store_def)
    have "write_page_copy data len (i + 1) (txb[i + 3 := data ! i]) =
      Inr (take (i + 1 + 3) (txb[i + 3 := data ! i]) @ drop (i + 1) (take (nat len) data)
           @ drop (nat len + 3) (txb[i + 3 := data ! i]))"
      using "1.IH" [OF True ld st] il "1.prems" by simp
    moreover have "take (i + 1 + 3) (txb[i + 3 := data ! i]) = take (i + 3) txb @ [data ! i]"
      using il "1.prems" take_Suc_update [of "i + 3" txb "data ! i"] by simp
    moreover have "drop i (take (nat len) data) = data ! i # drop (i + 1) (take (nat len) data)"
      using il "1.prems" by (simp add: Cons_nth_drop_Suc [symmetric])
    moreover have "drop (nat len + 3) (txb[i + 3 := data ! i]) = drop (nat len + 3) txb"
      using il by simp
    ultimately show ?thesis
      using True ld st by (subst write_page_copy.simps) simp
  qed
qed

lemma read_page_copy_length:
  "read_page_copy len i rxb data = Inr data' \<Longrightarrow> length data' = length data"
proof (induction len i rxb data rule: read_page_copy.induct)
  case (1 len i rxb data)
  then show ?case
    by (subst (asm) (2) read_page_copy.simps)
       (auto simp: load_def store_def split: if_splits option.splits)
qed

lemma read_page_copy_ok:
  "nat len + 3 \<le> length rxb \<Longrightarrow> nat len \<le> length data \<Longrightarrow>
     \<exists>data'. read_page_copy len i rxb data = Inr data'"
proof (induction len i rxb data rule: read_page_copy.induct)
  case (1 len i rxb data)
  show ?case
  proof (cases "int i < len")
    case False
    then show ?thesis by (subst read_page_copy.simps) simp
  next
    case True
    then have il: "i < nat len" by simp
    with "1.prems" have ld: "load rxb (i + 3) = Some (rxb ! (i + 3))"
      and st: "store data i (rxb ! (i + 3)) = Some (data[i := rxb ! (i + 3)])"
      by (simp_all add: load_def store_def)
    from "1.IH" [OF True ld st] "1.prems" True ld st show ?thesis
      by (subst read_page_copy.simps) simp
  qed
qed

lemma read_page_copy_overrun:
  "i \<le> 128 \<Longrightarrow> 128 < len \<Longrightarrow> length rxb = 131 \<Longrightarrow> 128 \<le> length data \<Longrightarrow>
     read_page_copy len i rxb data = Inl (OutOfBounds RX 131)"
proof (induction len i rxb data rule: read_page_copy.induct)
  case (1 len i rxb data)
  from "1.prems" have lt: "int i < len" by simp
  show ?case
  proof (cases "i = 128")
    case True
    with "1.prems" lt show ?thesis
      by (subst read_page_copy.simps) (simp add: load_def)
  next
    case False
    with "1.prems" have il: "i < 128" by simp
    with "1.prems" have ld: "load rxb (i + 3) = Some (rxb ! (i + 3))"
      and st: "store data i (rxb ! (i + 3)) = Some (data[i := rxb ! (i + 3)])"
      by (simp_all add: load_def store_def)
    from "1.IH" [OF lt ld st] il "1.prems" lt ld st show ?thesis
      by (subst read_page_copy.simps) simp
  qed
qed

lemma read_page_copy_nth:
  "read_page_copy len i rxb data = Inr data' \<Longrightarrow> j < length data \<Longrightarrow>
     data' ! j = (if i \<le> j \<and> int j < len then rxb ! (j + 3) else data ! j)"
proof (induction len i rxb data rule: read_page_copy.induct)
  case (1 len i rxb data)
  show ?case
  proof (cases "int i < len")
    case False
    with "1.prems" show ?thesis by (subst (asm) read_page_copy.simps) auto
  next
    case True
    with "1.prems" obtain b data1 where ld: "load rxb (i + 3) = Some b"
      and st: "store data i b = Some data1"
      and rec: "read_page_copy len (i + 1) rxb data1 = Inr data'"
      by (subst (asm) read_page_copy.simps) (auto split: option.splits)
    from ld have b: "b = rxb ! (i + 3)" by (auto simp: load_def split: if_splits)
    from st have d1: "data1 = data[i := b]" "i < length data" by (auto simp: store_def split: if_splits)
    from "1.IH" [OF True ld st rec] "1.prems" d1 b True show ?thesis
      by (auto simp: nth_list_update)
  qed
qed

lemma address_bytes:
  fixes page_address :: u16
  shows "unat (ucast (drop_bit 8 (page_address * 128)) :: u8) * 256
           + unat (ucast (page_address * 128) :: u8) = (unat page_address * 128) mod 65536"
proof -
  let ?pa = "page_address * 128"
  have lt: "unat ?pa < 65536" using unsigned_less [of ?pa, where ?'a = nat] by simp
  have pa: "unat ?pa = (unat page_address * 128) mod 65536"
    by (simp add: unat_word_ariths)
  have "unat (ucast (drop_bit 8 ?pa) :: u8) = take_bit 8 (drop_bit 8 (unat ?pa))"
    unfolding unsigned_ucast_eq unat_drop_bit_eq by simp
  then have hi: "unat (ucast (drop_bit 8 ?pa) :: u8) = unat ?pa div 256"
    using lt by (simp add: drop_bit_eq_div take_bit_eq_mod)
  have lo: "unat (ucast ?pa :: u8) = unat ?pa mod 256"
    by (simp add: unsigned_ucast_eq take_bit_eq_mod)
  show ?thesis unfolding hi lo pa [symmetric] by simp
qed

lemma take_append_le: "k \<le> length xs \<Longrightarrow> take k (xs @ ys) = take k xs"
  by simp

lemma write_issue_eq:
  assumes w: "wf_state s" and len: "len \<le> 128" and d: "nat len \<le> length data"
  shows "write_issue T p data len s =
    (Inr (),
     s\<lparr>tx := [WRITE, ucast (drop_bit 8 (p * 128)), ucast (p * 128)] @ take (nat len) data
              @ drop (nat len + 3) (tx s),
       dev := wr T (wr T (dev s) [WREN])
                (take (nat (len + 3))
                   ([WRITE, ucast (drop_bit 8 (p * 128)), ucast (p * 128)] @ take (nat len) data)),
       trace := trace s @ [Printf SettingWriteEnable, SpiWrite [WREN], Printf (WritingToPage p),
                  SpiWrite (take (nat (len + 3))
                   ([WRITE, ucast (drop_bit 8 (p * 128)), ucast (p * 128)] @ take (nat len) data)),
                  Nanosleep EEPROM_WRITE_DELAY]\<rparr>)"
proof -
  from w have l: "length (tx s) = 131" by (simp add: wf_len)
  let ?tx0 = "(tx s)[0 := WRITE, Suc 0 := ucast (drop_bit 8 (p * 128)), 2 := ucast (p * 128)]"
  have c: "write_page_copy data len 0 ?tx0 =
      Inr (take 3 ?tx0 @ drop 0 (take (nat len) data) @ drop (nat len + 3) ?tx0)"
    using write_page_copy_eq [of 0 len data ?tx0] l len d by simp
  have t3: "take 3 ?tx0 = [WRITE, ucast (drop_bit 8 (p * 128)), ucast (p * 128)]"
    using l by (simp add: frame3)
  have dr: "drop (nat len + 3) ?tx0 = drop (nat len + 3) (tx s)" by simp
  have n: "nat (len + 3) \<le> nat len + 3" by simp
  have fr: "take (nat (len + 3)) (WRITE # ucast (drop_bit 8 (p * 128)) # ucast (p * 128)
              # take (nat len) data @ drop (nat len + 3) (tx s)) =
            take (nat (len + 3)) (WRITE # ucast (drop_bit 8 (p * 128)) # ucast (p * 128)
              # take (nat len) data)"
    using take_append_le [of "nat (len + 3)"
        "WRITE # ucast (drop_bit 8 (p * 128)) # ucast (p * 128) # take (nat len) data"
        "drop (nat len + 3) (tx s)"] d n
    by simp
  show ?thesis
    using l d
    by (simp add: write_issue_def set_write_enable_def step_defs frame1 c t3 dr fr
        del: list_update.simps)
qed

lemma wf_startup: "wf_state (startup d)"
  by (simp add: wf_state_def startup_def)

lemma identify_eq:
  "identify T d =
     (startup d)\<lparr>tx := (replicate BUF_SIZE 0)[0 := RDID],
       rx := map (fst (rw T d [RDID, 0, 0, 0])) [0..<4] @ drop 4 (replicate BUF_SIZE 0),
       status := fst (rw T d [RDID, 0, 0, 0]) 3,
       dev := snd (rw T d [RDID, 0, 0, 0]),
       trace := trace (startup d) @ [Printf ReleasingPowerDown, SpiRw [RDID, 0, 0, 0],
                  Printf (StatusIs (fst (rw T d [RDID, 0, 0, 0]) 3))]\<rparr>"
  by (simp add: identify_def sig_eq wf_startup) (simp add: startup_def BUF_SIZE_def EEPROM_PAGE_SIZE_def list_update_same_conv [THEN iffD2])

lemma identify_wf: "wf_state (identify T d)"
  by (simp add: identify_def sig_eq wf_startup) (simp add: wf_state_def startup_def BUF_SIZE_def EEPROM_PAGE_SIZE_def)

lemma identify_status: "status (identify T d) = fst (release_pwrdwn_read_sig T (startup d))"
  by (simp add: identify_def Let_def)

lemma identify_transport: "transport (trace (identify T d)) = [SpiRw [RDID, 0, 0, 0]]"
  by (simp add: identify_eq) (simp add: startup_def)

lemma erase_issue_wf: "wf_state s \<Longrightarrow> wf_state (erase_issue T s)"
  by (simp add: erase_issue_eq) (simp add: wf_state_def)

lemma erase_issue_dev: "wf_state s \<Longrightarrow> dev (erase_issue T s) = wr T (wr T (dev s) [WREN]) [CE]"
  by (simp add: erase_issue_eq)

lemma erase_issue_trace:
  "wf_state s \<Longrightarrow> trace (erase_issue T s) =
     trace s @ [Printf SettingWriteEnable, SpiWrite [WREN], Printf EraseAllSectors,
                SpiWrite [CE], Nanosleep EEPROM_ERASE_DELAY]"
  by (simp add: erase_issue_eq)

lemma erase_device_snd:
  "snd (erase_device T fuel s) =
     snd (busy_wait T EraseInProgress EraseFinished fuel (erase_issue T s))"
  by (simp add: erase_device_def split: prod.splits sum.splits)

lemma erase_device_wf: "wf_state s \<Longrightarrow> wf_state (snd (erase_device T fuel s))"
  by (simp add: erase_device_snd busy_wait_wf erase_issue_wf)

lemma erase_device_timing:
  "wf_state s \<Longrightarrow> timing (trace (snd (erase_device T fuel s))) =
     timing (trace s) @ [SpiWrite [WREN], SpiWrite [CE], Nanosleep EEPROM_ERASE_DELAY]
       @ replicate (polls T fuel (wr T (wr T (dev s) [WREN]) [CE])) (SpiRw [RDSR, 0])"
  by (simp add: erase_device_snd busy_wait_timing erase_issue_wf erase_issue_dev erase_issue_trace)

lemma erase_device_transport:
  "wf_state s \<Longrightarrow> transport (trace (snd (erase_device T fuel s))) =
     transport (trace s) @ [SpiWrite [WREN], SpiWrite [CE]]
       @ replicate (polls T fuel (wr T (wr T (dev s) [WREN]) [CE])) (SpiRw [RDSR, 0])"
  by (simp add: erase_device_snd busy_wait_transport erase_issue_wf erase_issue_dev erase_issue_trace)

lemma erase_device_returns:
  assumes "wf_state s" "status_after T n (wr T (wr T (dev s) [WREN]) [CE]) AND 0x01 = 0" "n < fuel"
  shows "\<exists>s'. erase_device T fuel s = (Inr EXIT_SUCCESS, s') \<and> status s' AND 0x01 = 0"
proof -
  from assms have "status_after T n (dev (erase_issue T s)) AND 0x01 = 0"
    by (simp add: erase_issue_dev)
  from busy_wait_returns [OF erase_issue_wf [OF assms(1)] this assms(3)]
  obtain s' where "busy_wait T EraseInProgress EraseFinished fuel (erase_issue T s) = (Inr (), s')"
    and "status s' AND 0x01 = 0" by blast
  then show ?thesis by (simp add: erase_device_def)
qed

lemma write_issue_wf:
  "wf_state s \<Longrightarrow> len \<le> 128 \<Longrightarrow> nat len \<le> length data \<Longrightarrow>
     wf_state (snd (write_issue T p data len s))"
  by (simp add: write_issue_eq) (simp add: wf_state_def BUF_SIZE_def EEPROM_PAGE_SIZE_def)

lemma write_page_snd:
  "wf_state s \<Longrightarrow> len \<le> 128 \<Longrightarrow> nat len \<le> length data \<Longrightarrow>
     snd (write_page T fuel p data len s) =
       snd (busy_wait T WriteInProgress WriteFinished fuel (snd (write_issue T p data len s)))"
  by (simp add: write_page_def write_issue_eq EEPROM_PAGE_SIZE_def split: prod.splits sum.splits)

lemma write_page_wf:
  "wf_state s \<Longrightarrow> nat len \<le> length data \<Longrightarrow> wf_state (snd (write_page T fuel p data len s))"
proof (cases "len \<le> 128")
  case True
  assume "wf_state s" "nat len \<le> length data"
  with True show ?thesis by (simp add: write_page_snd busy_wait_wf write_issue_wf)
next
  case False
  assume "wf_state s"
  with False show ?thesis by (simp add: write_page_def EEPROM_PAGE_SIZE_def)
qed

lemma write_page_fst:
  "wf_state s \<Longrightarrow> nat len \<le> length data \<Longrightarrow>
     fst (write_page T fuel p data len s) = Inl OutOfFuel
     \<or> (\<exists>r. fst (write_page T fuel p data len s) = Inr r)"
  using busy_wait_fst [of T WriteInProgress WriteFinished fuel "snd (write_issue T p data len s)"]
  by (auto simp: write_page_def write_issue_eq EEPROM_PAGE_SIZE_def split: prod.splits sum.splits)

lemma write_page_timing:
  "wf_state s \<Longrightarrow> len \<le> 128 \<Longrightarrow> nat len \<le> length data \<Longrightarrow>
     timing (trace (snd (write_page T fuel p data len s))) =
       timing (trace s) @
       [SpiWrite [WREN],
        SpiWrite (take (nat (len + 3))
          ([WRITE, ucast (drop_bit 8 (p * 128)), ucast (p * 128)] @ take (nat len) data)),
        Nanosleep EEPROM_WRITE_DELAY] @
       replicate
         (polls T fuel (wr T (wr T (dev s) [WREN])
            (take (nat (len + 3))
              ([WRITE, ucast (drop_bit 8 (p * 128)), ucast (p * 128)] @ take (nat len) data))))
         (SpiRw [RDSR, 0])"
  by (simp add: write_page_snd busy_wait_timing write_issue_wf) (simp add: write_issue_eq)

lemma write_page_transport:
  "wf_state s \<Longrightarrow> len \<le> 128 \<Longrightarrow> nat len \<le> length data \<Longrightarrow>
     transport (trace (snd (write_page T fuel p data len s))) =
       transport (trace s) @
       [SpiWrite [WREN],
        SpiWrite (take (nat (len + 3))
          ([WRITE, ucast (drop_bit 8 (p * 128)), ucast (p * 128)] @ take (nat len) data))] @
       replicate
         (polls T fuel (wr T (wr T (dev s) [WREN])
            (take (nat (len + 3))
              ([WRITE, ucast (drop_bit 8 (p * 128)), ucast (p * 128)] @ take (nat len) data))))
         (SpiRw [RDSR, 0])"
  by (simp add: write_page_snd busy_wait_transport write_issue_wf) (simp add: write_issue_eq)

lemma write_page_returns:
  assumes "wf_state s" "len \<le> 128" "nat len \<le> length data"
    and "status_after T n (wr T (wr T (dev s) [WREN])
            (take (nat (len + 3))
              ([WRITE, ucast (drop_bit 8 (p * 128)), ucast (p * 128)] @ take (nat len) data)))
          AND 0x01 = 0"
    and "n < fuel"
  shows "\<exists>s'. write_page T fuel p data len s = (Inr EXIT_SUCCESS, s') \<and> status s' AND 0x01 = 0"
proof -
  obtain s1 where i: "write_issue T p data len s = (Inr (), s1)"
    using assms(1-3) by (simp add: write_issue_eq)
  then have s1: "s1 = snd (write_issue T p data len s)" by simp
  have w: "wf_state s1" unfolding s1 by (rule write_issue_wf [OF assms(1-3)])
  have "status_after T n (dev s1) AND 0x01 = 0"
    unfolding s1 using assms(1-4) by (simp add: write_issue_eq)
  from busy_wait_returns [OF w this assms(5)]
  obtain s' where "busy_wait T WriteInProgress WriteFinished fuel s1 = (Inr (), s')"
    and "status s' AND 0x01 = 0" by blast
  with i assms(2) show ?thesis by (simp add: write_page_def EEPROM_PAGE_SIZE_def)
qed

lemma frame_read:
  "3 \<le> length xs \<Longrightarrow>
     take (nat (len + 3)) (xs[0 := a, Suc 0 := b, 2 := c]) =
       take (nat (len + 3)) (a # b # c # drop 3 xs)"
proof -
  assume l: "3 \<le> length xs"
  have "xs[0 := a, Suc 0 := b, 2 := c] = a # b # c # drop 3 xs"
    using l by (auto simp: eval_nat_numeral Suc_le_length_iff)
  then show ?thesis by simp
qed

lemma read_page_s3:
  "wf_state s \<Longrightarrow>
     snd (snd (read_page T p data len s)) =
       s\<lparr>tx := (tx s)[0 := READ, 1 := ucast (drop_bit 8 (p * 128)), 2 := ucast (p * 128)],
         rx := map (fst (rw T (dev s) (take (nat (len + 3))
                  (READ # ucast (drop_bit 8 (p * 128)) # ucast (p * 128) # drop 3 (tx s)))))
                 [0..<min 131 (nat (len + 3))] @ drop (min 131 (nat (len + 3))) (rx s),
         dev := snd (rw T (dev s) (take (nat (len + 3))
                  (READ # ucast (drop_bit 8 (p * 128)) # ucast (p * 128) # drop 3 (tx s)))),
         trace := trace s @ [SpiRw (take (nat (len + 3))
                  (READ # ucast (drop_bit 8 (p * 128)) # ucast (p * 128) # drop 3 (tx s)))]\<rparr>"
  by (frule wf_len)
     (simp add: read_page_def step_defs frame_read split: sum.splits)

lemma read_page_wf: "wf_state s \<Longrightarrow> wf_state (snd (snd (read_page T p data len s)))"
  by (simp add: read_page_def Let_def split: sum.splits)

lemma read_page_transport:
  "wf_state s \<Longrightarrow>
    transport (trace (snd (snd (read_page T p data len s)))) =
      transport (trace s) @ [SpiRw (take (nat (len + 3))
          (READ # ucast (drop_bit 8 (p * 128)) # ucast (p * 128) # drop 3 (tx s)))]"
  by (simp add: read_page_s3)

lemma read_page_length:
  "length (fst (snd (read_page T p data len s))) = length data"
  by (auto simp: read_page_def Let_def read_page_copy_length split: sum.splits)

lemma read_page_ok:
  assumes "wf_state s" "len \<le> 128" "nat len \<le> length data"
  shows "fst (read_page T p data len s) = Inr EXIT_SUCCESS"
proof -
  let ?s3 = "libsoc_spi_rw T (len + 3)
      (set_tx 2 (ucast (p * 128)) (set_tx 1 (ucast (drop_bit 8 (p * 128))) (set_tx 0 READ s)))"
  have "wf_state ?s3" using assms(1) by simp
  then have "length (rx ?s3) = 131" by (simp add: wf_len)
  with assms have "nat len + 3 \<le> length (rx ?s3)" by simp
  from read_page_copy_ok [OF this assms(3), of 0]
  show ?thesis by (auto simp: read_page_def Let_def)
qed

lemma read_page_overrun:
  assumes "wf_state s" "128 < len" "128 \<le> length data"
  shows "fst (read_page T p data len s) = Inl (OutOfBounds RX 131)"
proof -
  let ?s3 = "libsoc_spi_rw T (len + 3)
      (set_tx 2 (ucast (p * 128)) (set_tx 1 (ucast (drop_bit 8 (p * 128))) (set_tx 0 READ s)))"
  have "wf_state ?s3" using assms(1) by simp
  then have "length (rx ?s3) = 131" by (simp add: wf_len)
  from read_page_copy_overrun [OF _ assms(2) this assms(3), of 0]
  show ?thesis by (simp add: read_page_def Let_def)
qed

lemma compare_ok:
  "nat len \<le> length data \<Longrightarrow> nat len \<le> length data_read \<Longrightarrow>
     fst (compare page data data_read len i s) = Inr ()"
proof (induction page data data_read len i s rule: compare.induct)
  case (1 page data data_read len i s)
  show ?case
  proof (cases "int i < len")
    case False
    then show ?thesis by (subst compare.simps) simp
  next
    case True
    then have il: "i < nat len" by simp
    with "1.prems" have ld: "load data i = Some (data ! i)"
      and lr: "load data_read i = Some (data_read ! i)"
      by (simp_all add: load_def)
    from "1.IH" [OF True ld lr] "1.prems" True ld lr show ?thesis
      by (subst compare.simps) simp
  qed
qed

lemma compare_frame:
  "tx (snd (compare page data data_read len i s)) = tx s
   \<and> rx (snd (compare page data data_read len i s)) = rx s
   \<and> dev (snd (compare page data data_read len i s)) = dev s
   \<and> status (snd (compare page data data_read len i s)) = status s
   \<and> timing (trace (snd (compare page data data_read len i s))) = timing (trace s)
   \<and> transport (trace (snd (compare page data data_read len i s))) = transport (trace s)"
proof (induction page data data_read len i s rule: compare.induct)
  case (1 page data data_read len i s)
  show ?case
  proof (cases "int i < len")
    case False
    then show ?thesis by (subst (1 2 3 4 5 6) compare.simps) simp
  next
    case True
    show ?thesis
    proof (cases "load data i")
      case None
      with True show ?thesis by (subst (1 2 3 4 5 6) compare.simps) simp
    next
      case (Some a)
      note A = this
      show ?thesis
      proof (cases "load data_read i")
        case None
        with True A show ?thesis by (subst (1 2 3 4 5 6) compare.simps) simp
      next
        case (Some b)
        from "1.IH" [OF True A Some] True A Some show ?thesis
          by (subst (1 2 3 4 5 6) compare.simps) (simp add: printf_def)
      qed
    qed
  qed
qed

lemma compare_wf: "wf_state s \<Longrightarrow> wf_state (snd (compare page data data_read len i s))"
  by (simp add: wf_state_def compare_frame)

lemma needs_wren_simps:
  "\<not> needs_wren (SpiWrite [WREN])" "\<not> needs_wren (SpiRw (RDSR # f))" "\<not> needs_wren (SpiRw (RDID # f))"
  "\<not> needs_wren (SpiWrite [DPD])" "\<not> needs_wren (SpiRw (take n (READ # f)))"
  "needs_wren (SpiWrite [CE])" "needs_wren (SpiWrite (WRITE # f))"
  by (cases n; simp add: opcode_defs)+

lemma wren_guarded_append:
  "wren_guarded p (xs @ ys) =
     (wren_guarded p xs \<and> wren_guarded (if xs = [] then p else Some (last xs)) ys)"
  by (induction xs arbitrary: p) auto

lemma wren_guarded_any: "wren_guarded None ys \<Longrightarrow> wren_guarded q ys"
  by (cases ys) auto

lemma wren_guarded_ext:
  "wren_guarded None xs \<Longrightarrow> wren_guarded None ys \<Longrightarrow> wren_guarded None (xs @ ys)"
  by (simp add: wren_guarded_append wren_guarded_any)

lemma wren_guarded_polls: "wren_guarded q (replicate k (SpiRw [RDSR, 0]))"
  by (induction k arbitrary: q) (simp_all add: opcode_defs)

lemma wren_guarded_command:
  "wren_guarded None (SpiWrite [WREN] # SpiWrite f # replicate k (SpiRw [RDSR, 0]))"
  by (simp add: wren_guarded_polls) (simp add: opcode_defs)

lemma write_page_guard:
  assumes "wf_state s" "len \<le> 128" "nat len \<le> length data"
    and "wren_guarded None (transport (trace s))"
  shows "wren_guarded None (transport (trace (snd (write_page T fuel p data len s))))"
  using assms(4) wren_guarded_command
  by (simp add: write_page_transport [OF assms(1-3)] wren_guarded_ext)

lemma write_page_responsive:
  assumes "wf_state s" "len \<le> 128" "nat len \<le> length data" "responsive T fuel"
  shows "\<exists>s'. write_page T fuel p data len s = (Inr EXIT_SUCCESS, s')"
proof -
  let ?f = "take (nat (len + 3))
              ([WRITE, ucast (drop_bit 8 (p * 128)), ucast (p * 128)] @ take (nat len) data)"
  from assms(4) obtain n where "n < fuel"
    and "status_after T n (wr T (wr T (dev s) [WREN]) ?f) AND 0x01 = 0"
    unfolding responsive_def by blast
  from write_page_returns [OF assms(1-3) this(2,1)] show ?thesis by blast
qed

lemma write_all_inv:
  "(\<And>page s. I s \<Longrightarrow> I (snd (write_page T fuel page data len s))) \<Longrightarrow> I s \<Longrightarrow>
     I (snd (write_all T fuel data len page s))"
proof (induction T fuel data len page s rule: write_all.induct)
  case (1 T fuel data len page s)
  show ?case
  proof (cases "unat page < EEPROM_NUM_PAGES")
    case False
    with "1.prems"(2) show ?thesis by (subst write_all.simps) simp
  next
    case True
    obtain res s' where wp: "write_page T fuel page data len s = (res, s')"
      by (cases "write_page T fuel page data len s")
    from "1.prems"(1) [OF "1.prems"(2), of page] wp have I': "I s'" by simp
    show ?thesis
    proof (cases res)
      case (Inl e)
      with True wp I' show ?thesis by (subst write_all.simps) simp
    next
      case (Inr r)
      from "1.IH" [OF True wp [symmetric] Inr "1.prems"(1) I'] True wp Inr
      show ?thesis by (subst write_all.simps) simp
    qed
  qed
qed

lemma write_all_fst:
  "(\<And>page s. I s \<Longrightarrow> I (snd (write_page T fuel page data len s))) \<Longrightarrow>
   (\<And>page s e. I s \<Longrightarrow> fst (write_page T fuel page data len s) = Inl e \<Longrightarrow> Q e) \<Longrightarrow>
   I s \<Longrightarrow> fst (write_all T fuel data len page s) = Inl e \<Longrightarrow> Q e"
proof (induction T fuel data len page s rule: write_all.induct)
  case (1 T fuel data len page s)
  show ?case
  proof (cases "unat page < EEPROM_NUM_PAGES")
    case False
    with "1.prems"(4) show ?thesis by (subst (asm) write_all.simps) simp
  next
    case True
    obtain res s' where wp: "write_page T fuel page data len s = (res, s')"
      by (cases "write_page T fuel page data len s")
    from "1.prems"(1) [OF "1.prems"(3), of page] wp have I': "I s'" by simp
    show ?thesis
    proof (cases res)
      case (Inl e')
      with True wp "1.prems"(4) have "e' = e" by (subst (asm) write_all.simps) simp
      with "1.prems"(2) [OF "1.prems"(3), of page e] wp Inl show ?thesis by simp
    next
      case (Inr r)
      from True wp Inr "1.prems"(4)
      have "fst (write_all T fuel data len (page + 1) s') = Inl e"
        by (subst (asm) write_all.simps) simp
      from "1.IH" [OF True wp [symmetric] Inr "1.prems"(1,2) I' this]
      show ?thesis by simp
    qed
  qed
qed

lemma read_all_inv:
  "(\<And>page dr s. I s \<Longrightarrow> I (snd (snd (read_page T page dr len s)))) \<Longrightarrow>
   (\<And>page dr s. I s \<Longrightarrow> I (snd (compare page data dr len 0 s))) \<Longrightarrow>
   I s \<Longrightarrow> I (snd (read_all T data len page data_read s))"
proof (induction T data len page data_read s rule: read_all.induct)
  case (1 T data len page data_read s)
  show ?case
  proof (cases "unat page < EEPROM_NUM_PAGES")
    case False
    with "1.prems"(3) show ?thesis by (subst read_all.simps) simp
  next
    case True
    obtain res dr s' where rp: "read_page T page data_read len s = (res, dr, s')"
      by (cases "read_page T page data_read len s")
    from "1.prems"(1) [OF "1.prems"(3), of page data_read] rp have I': "I s'" by simp
    show ?thesis
    proof (cases res)
      case (Inl e)
      with True rp I' show ?thesis by (subst read_all.simps) simp
    next
      case (Inr r)
      note R = this
      obtain res' s'' where cp: "compare page data dr len 0 s' = (res', s'')"
        by (cases "compare page data dr len 0 s'")
      from "1.prems"(2) [OF I', of page dr] cp have I'': "I s''" by simp
      show ?thesis
      proof (cases res')
        case (Inl e)
        with True rp R cp I'' show ?thesis by (subst read_all.simps) simp
      next
        case (Inr u)
        from "1.IH" [OF True rp [symmetric] R refl cp [symmetric] Inr "1.prems"(1,2) I'']
          True rp R cp Inr
        show ?thesis by (subst read_all.simps) simp
      qed
    qed
  qed
qed

lemma read_all_ok:
  "wf_state s \<Longrightarrow> len \<le> 128 \<Longrightarrow> nat len \<le> length data \<Longrightarrow> nat len \<le> length data_read \<Longrightarrow>
     fst (read_all T data len page data_read s) = Inr ()"
proof (induction T data len page data_read s rule: read_all.induct)
  case (1 T data len page data_read s)
  show ?case
  proof (cases "unat page < EEPROM_NUM_PAGES")
    case False
    then show ?thesis by (subst read_all.simps) simp
  next
    case True
    obtain res dr s' where rp: "read_page T page data_read len s = (res, dr, s')"
      by (cases "read_page T page data_read len s")
    from read_page_ok [OF "1.prems"(1,2,4), of T page] rp have R: "res = Inr EXIT_SUCCESS" by simp
    from read_page_wf [OF "1.prems"(1), of T page data_read len] rp have w: "wf_state s'" by simp
    from read_page_length [of T page data_read len s] rp "1.prems"(4)
    have l: "nat len \<le> length dr" by simp
    obtain res' s'' where cp: "compare page data dr len 0 s' = (res', s'')"
      by (cases "compare page data dr len 0 s'")
    from compare_ok [OF "1.prems"(3) l, of page 0 s'] cp have C: "res' = Inr ()" by simp
    from compare_wf [OF w, of page data dr len 0] cp have w': "wf_state s''" by simp
    from "1.IH" [OF True rp [symmetric] R refl cp [symmetric] C w' "1.prems"(2,3) l]
      True rp R cp C
    show ?thesis by (subst read_all.simps) simp
  qed
qed

lemma dpd_transport:
  "wf_state s \<Longrightarrow> transport (trace (snd (set_deep_power_down T s))) = transport (trace s) @ [SpiWrite [DPD]]"
  by (simp add: dpd_eq)

lemma dpd_wf: "wf_state s \<Longrightarrow> wf_state (snd (set_deep_power_down T s))"
  by (simp add: dpd_eq) (simp add: wf_state_def)

lemma busy_wait_tx:
  "wf_state s \<Longrightarrow> drop 2 (tx (snd (busy_wait T a b fuel s))) = drop 2 (tx s)"
proof (induction fuel arbitrary: s)
  case 0
  then show ?case by simp
next
  case (Suc fuel)
  let ?s1 = "printf a ((snd (read_status_register T s))\<lparr>status := fst (read_status_register T s)\<rparr>)"
  have w: "wf_state ?s1" using Suc.prems by (simp add: rsr_wf)
  show ?case
    using Suc.IH [OF w] Suc.prems
    by (simp add: Let_def rsr_eq printf_def)
qed

lemma erase_device_tx:
  "wf_state s \<Longrightarrow> drop 2 (tx (snd (erase_device T fuel s))) = drop 2 (tx s)"
  by (simp add: erase_device_snd busy_wait_tx erase_issue_wf) (simp add: erase_issue_eq)

lemma identify_tx: "drop 2 (tx (identify T d)) = replicate 129 0"
  by (simp add: identify_eq) (simp add: BUF_SIZE_def EEPROM_PAGE_SIZE_def)

lemma length_pattern: "length pattern = 128"
  by (simp add: pattern_def EEPROM_PAGE_SIZE_def)

lemma length_data_read0: "length data_read0 = 128"
  by (simp add: data_read0_def EEPROM_PAGE_SIZE_def)

lemma take_Suc0_replicate: "0 < n \<Longrightarrow> take (Suc 0) (replicate n x) = [x]"
  by (cases n) simp_all

lemma check_frame:
  assumes "drop 2 xs = replicate 129 (0::u8)"
  shows "take 4 (READ # 0 # 0 # drop 3 xs) = [READ, 0, 0, 0]"
proof -
  have "drop 3 xs = drop 1 (drop 2 xs)" by (simp add: eval_nat_numeral)
  also have "\<dots> = replicate 128 0" unfolding assms by simp
  finally show ?thesis by (simp add: take_Suc0_replicate)
qed

lemma write_all_wf:
  "wf_state s \<Longrightarrow> nat len \<le> length data \<Longrightarrow> wf_state (snd (write_all T fuel data len page s))"
  by (rule write_all_inv [where I = wf_state]) (simp_all add: write_page_wf)

lemma write_all_stop:
  fixes s :: "'d state"
  assumes "wf_state s" "nat len \<le> length data" "fst (write_all T fuel data len page s) = Inl e"
  shows "e = OutOfFuel"
proof (rule write_all_fst [where I = wf_state and Q = "\<lambda>e. e = OutOfFuel", OF _ _ assms(1,3)])
  fix pg and s1 :: "'d state" assume "wf_state s1"
  then show "wf_state (snd (write_page T fuel pg data len s1))"
    using assms(2) by (simp add: write_page_wf)
next
  fix pg e' and s1 :: "'d state"
  assume "wf_state s1" "fst (write_page T fuel pg data len s1) = Inl e'"
  with write_page_fst [OF _ assms(2), of s1 T fuel pg] show "e' = OutOfFuel" by auto
qed

lemma write_all_responsive:
  fixes s :: "'d state"
  assumes "wf_state s" "len \<le> 128" "nat len \<le> length data" "responsive T fuel"
  shows "fst (write_all T fuel data len page s) = Inr ()"
proof (cases "fst (write_all T fuel data len page s)")
  case (Inl e)
  have False
  proof (rule write_all_fst [where I = wf_state and Q = "\<lambda>e. False", OF _ _ assms(1) Inl])
    fix pg and s1 :: "'d state" assume "wf_state s1"
    then show "wf_state (snd (write_page T fuel pg data len s1))"
      using assms(3) by (simp add: write_page_wf)
  next
    fix pg e' and s1 :: "'d state"
    assume "wf_state s1" "fst (write_page T fuel pg data len s1) = Inl e'"
    with write_page_responsive [OF _ assms(2,3,4), of s1 pg] show False by auto
  qed
  then show ?thesis ..
next
  case (Inr u)
  then show ?thesis by simp
qed

lemma read_page_data:
  assumes w: "wf_state s" and len: "len \<le> 128" and d: "nat len \<le> length data" and j: "j < nat len"
  shows "fst (snd (read_page T p data len s)) ! j =
     fst (rw T (dev s) (take (nat (len + 3))
        (READ # ucast (drop_bit 8 (p * 128)) # ucast (p * 128) # drop 3 (tx s)))) (j + 3)"
proof -
  let ?s3 = "snd (snd (read_page T p data len s))"
  let ?f = "take (nat (len + 3)) (READ # ucast (drop_bit 8 (p * 128)) # ucast (p * 128) # drop 3 (tx s))"
  from w have l: "length (tx s) = 131" "length (rx s) = 131" by (simp_all add: wf_len)
  have n: "nat (len + 3) = nat len + 3" using j by simp
  have rx3: "rx ?s3 = map (fst (rw T (dev s) ?f)) [0..<nat len + 3] @ drop (nat len + 3) (rx s)"
    using len j by (simp add: read_page_s3 [OF w] n)
  have lr: "nat len + 3 \<le> length (rx ?s3)" using len l by (simp add: rx3)
  obtain data' where c: "read_page_copy len 0 (rx ?s3) data = Inr data'"
    using read_page_copy_ok [OF lr d, of 0] by blast
  have s3: "?s3 = libsoc_spi_rw T (len + 3)
      (set_tx 2 (ucast (p * 128)) (set_tx 1 (ucast (drop_bit 8 (p * 128))) (set_tx 0 READ s)))"
    by (simp add: read_page_def Let_def split: sum.splits)
  have "fst (snd (read_page T p data len s)) = data'"
    using c unfolding s3 by (simp add: read_page_def Let_def)
  moreover have "int j < len" using j by linarith
  then have "data' ! j = rx ?s3 ! (j + 3)"
    using read_page_copy_nth [OF c, of j] j d by simp
  moreover have "rx ?s3 ! (j + 3) = fst (rw T (dev s) ?f) (j + 3)"
    using j unfolding rx3 by (simp add: nth_map_upt_append)
  ultimately show ?thesis by simp
qed

lemma mock_simps:
  "rw (mock sig fill k) d f =
     (\<lambda>i. if hd f = RDID then sig else if hd f = RDSR then (if 0 < d then 1 else 0) else fill, d - 1)"
  "wr (mock sig fill k) d f = k"
  by (simp_all add: mock_def)

lemma mock_clear: "status_after (mock sig fill 1) 1 (wr (mock sig fill 1) d f) AND 0x01 = 0"
  by (simp add: mock_simps opcode_defs)

lemma mock_responsive: "responsive (mock sig fill 1) 2"
  unfolding responsive_def
proof (intro allI)
  fix d f
  have "(1::nat) < 2" by simp
  with mock_clear [of sig fill d f] show "\<exists>n<2. status_after (mock sig fill 1) n (wr (mock sig fill 1) d f) AND 0x01 = 0"
    by blast
qed

lemma mock_polls: "polls (mock sig fill 1) 2 (wr (mock sig fill 1) d f) = 2"
  by (simp only: numeral_2_eq_2) (simp add: mock_simps opcode_defs)

lemma mock_run:
  fixes fill :: u8
  defines "T \<equiv> mock 0x29 fill 1"
  shows "fst (release_pwrdwn_read_sig T (startup (0::nat))) = EEPROM_DEVICE_ID"
    and "fst (erase_device T 2 (identify T (0::nat))) = Inr EXIT_SUCCESS"
    and "erase_check_byte T 2 (0::nat) = fill"
proof -
  let ?S2 = "snd (erase_device T 2 (identify T (0::nat)))"
  let ?C = "read_page T 0 data_read0 1 (printf ReadingPage0 ?S2)"
  show "fst (release_pwrdwn_read_sig T (startup (0::nat))) = EEPROM_DEVICE_ID"
    by (simp add: T_def sig_eq wf_startup mock_simps EEPROM_DEVICE_ID_def)
  have "1 < (2::nat)" by simp
  from erase_device_returns [where T = T and s = "identify T 0" and n = 1 and fuel = 2,
      OF identify_wf _ this] mock_clear [of "0x29" fill]
  show e: "fst (erase_device T 2 (identify T (0::nat))) = Inr EXIT_SUCCESS"
    unfolding T_def by auto
  have w: "wf_state (printf ReadingPage0 ?S2)"
    by (simp add: erase_device_wf [OF identify_wf])
  have "fst (snd ?C) ! 0 = fst (rw T (dev (printf ReadingPage0 ?S2)) (take (nat (1 + 3))
        (READ # ucast (drop_bit 8 (0 * 128 :: u16)) # ucast (0 * 128 :: u16)
           # drop 3 (tx (printf ReadingPage0 ?S2))))) (0 + 3)"
    by (rule read_page_data [OF w]) (simp_all add: length_data_read0)
  then show "erase_check_byte T 2 (0::nat) = fill"
    by (simp add: erase_check_byte_def Let_def T_def mock_simps opcode_defs)
qed

lemma wren_guarded_nth:
  "wren_guarded p es =
     (\<forall>i<length es. needs_wren (es ! i) \<longrightarrow>
        (if i = 0 then p = Some (SpiWrite [WREN]) else es ! (i - 1) = SpiWrite [WREN]))"
proof (induction es arbitrary: p)
  case Nil
  then show ?case by simp
next
  case (Cons e es)
  have "(\<forall>i<length (e # es). needs_wren ((e # es) ! i) \<longrightarrow>
        (if i = 0 then p = Some (SpiWrite [WREN]) else (e # es) ! (i - 1) = SpiWrite [WREN]))
     = ((needs_wren e \<longrightarrow> p = Some (SpiWrite [WREN])) \<and>
        (\<forall>i<length es. needs_wren (es ! i) \<longrightarrow>
           (if i = 0 then Some e = Some (SpiWrite [WREN]) else es ! (i - 1) = SpiWrite [WREN])))"
    (is "?L = (?A \<and> ?B)")
  proof
    assume L: ?L
    have ?A using L [rule_format, of 0] by simp
    moreover have ?B
    proof (intro allI impI)
      fix i assume "i < length es" "needs_wren (es ! i)"
      with L [rule_format, of "Suc i"] show
        "if i = 0 then Some e = Some (SpiWrite [WREN]) else es ! (i - 1) = SpiWrite [WREN]"
        by (cases i) simp_all
    qed
    ultimately show "?A \<and> ?B" ..
  next
    assume AB: "?A \<and> ?B"
    show ?L
    proof (intro allI impI)
      fix i assume i: "i < length (e # es)" "needs_wren ((e # es) ! i)"
      show "if i = 0 then p = Some (SpiWrite [WREN]) else (e # es) ! (i - 1) = SpiWrite [WREN]"
      proof (cases i)
        case 0
        with i AB show ?thesis by simp
      next
        case (Suc j)
        with i AB [THEN conjunct2, rule_format, of j] show ?thesis
          by (cases j) simp_all
      qed
    qed
  qed
  with Cons.IH [of "Some e"] show ?case by simp
qed

lemma latch_identify:
  "wf_state (identify T d) \<and> wren_guarded None (transport (trace (identify T d)))"
  by (simp add: identify_wf identify_transport needs_wren_simps del: needs_wren.simps)

lemma latch_erase:
  assumes "wf_state s \<and> wren_guarded None (transport (trace s))"
  shows "wf_state (snd (erase_device T fuel s))
       \<and> wren_guarded None (transport (trace (snd (erase_device T fuel s))))"
  using assms wren_guarded_command [of "[CE]"]
  by (simp add: erase_device_wf erase_device_transport wren_guarded_ext)

lemma latch_read_page:
  assumes "wf_state s \<and> wren_guarded None (transport (trace s))"
  shows "wf_state (snd (snd (read_page T p data len s)))
       \<and> wren_guarded None (transport (trace (snd (snd (read_page T p data len s)))))"
  using assms
  by (simp add: read_page_wf read_page_transport wren_guarded_ext needs_wren_simps
      del: needs_wren.simps)

lemma latch_dpd:
  assumes "wf_state s \<and> wren_guarded None (transport (trace s))"
  shows "wf_state (snd (set_deep_power_down T s))
       \<and> wren_guarded None (transport (trace (snd (set_deep_power_down T s))))"
  using assms
  by (simp add: dpd_wf dpd_transport wren_guarded_ext needs_wren_simps del: needs_wren.simps)

lemma latch_steps [simp]:
  "wren_guarded None (transport (trace (printf m s))) = wren_guarded None (transport (trace s))"
  "wren_guarded None (transport (trace (libcall c s))) = wren_guarded None (transport (trace s))"
  by (simp_all add: printf_def libcall_def)

lemma latch_write_all:
  fixes s :: "'d state"
  assumes "wf_state s \<and> wren_guarded None (transport (trace s))"
  shows "wf_state (snd (write_all T fuel pattern 128 page s))
       \<and> wren_guarded None (transport (trace (snd (write_all T fuel pattern 128 page s))))"
proof (rule write_all_inv
    [where I = "\<lambda>s. wf_state s \<and> wren_guarded None (transport (trace s))", OF _ assms])
  fix pg and s1 :: "'d state"
  assume "wf_state s1 \<and> wren_guarded None (transport (trace s1))"
  then show "wf_state (snd (write_page T fuel pg pattern 128 s1))
     \<and> wren_guarded None (transport (trace (snd (write_page T fuel pg pattern 128 s1))))"
    by (simp add: write_page_wf write_page_guard length_pattern)
qed

lemma latch_read_all:
  fixes s :: "'d state"
  assumes "wf_state s \<and> wren_guarded None (transport (trace s))"
  shows "wf_state (snd (read_all T pattern 128 page dr s))
       \<and> wren_guarded None (transport (trace (snd (read_all T pattern 128 page dr s))))"
proof (rule read_all_inv
    [where I = "\<lambda>s. wf_state s \<and> wren_guarded None (transport (trace s))", OF _ _ assms])
  fix pg dr' and s1 :: "'d state"
  assume "wf_state s1 \<and> wren_guarded None (transport (trace s1))"
  then show "wf_state (snd (snd (read_page T pg dr' 128 s1)))
     \<and> wren_guarded None (transport (trace (snd (snd (read_page T pg dr' 128 s1)))))"
    by (rule latch_read_page)
next
  fix pg dr' and s1 :: "'d state"
  assume "wf_state s1 \<and> wren_guarded None (transport (trace s1))"
  then show "wf_state (snd (compare pg pattern dr' 128 0 s1))
     \<and> wren_guarded None (transport (trace (snd (compare pg pattern dr' 128 0 s1))))"
    by (simp add: compare_wf compare_frame)
qed

lemma latch_finish:
  assumes "wf_state s \<and> wren_guarded None (transport (trace s))"
  shows "wren_guarded None
     (transport (trace (libcall SpiFree (snd (set_deep_power_down T (printf m s))))))"
proof -
  from assms have "wf_state (printf m s) \<and> wren_guarded None (transport (trace (printf m s)))"
    by simp
  from latch_dpd [OF this] show ?thesis by simp
qed

lemma main_latch: "wren_guarded None (transport (snd (main T fuel spi_dev)))"
proof (cases spi_dev)
  case None
  then show ?thesis by (simp add: main_def)
next
  case (Some d)
  let ?I = "\<lambda>s. wf_state s \<and> wren_guarded None (transport (trace s))"
  let ?s1 = "identify T d"
  have I1: "?I ?s1" by (rule latch_identify)
  note fin = latch_finish [where T = T]
  show ?thesis
  proof (cases "status ?s1 = EEPROM_DEVICE_ID")
    case False
    with Some fin [OF I1] show ?thesis by (simp add: main_def Let_def)
  next
    case True
    obtain res2 s2 where er: "erase_device T fuel ?s1 = (res2, s2)"
      by (cases "erase_device T fuel ?s1")
    from latch_erase [OF I1, of T fuel] er have I2: "?I s2" by simp
    show ?thesis
    proof (cases res2)
      case (Inl e)
      with Some True er I2 show ?thesis by (simp add: main_def Let_def)
    next
      case (Inr r)
      note R2 = this
      obtain res3 dr s3 where rp: "read_page T 0 data_read0 1 (printf ReadingPage0 s2) = (res3, dr, s3)"
        by (cases "read_page T 0 data_read0 1 (printf ReadingPage0 s2)")
      from I2 have "?I (printf ReadingPage0 s2)" by simp
      from latch_read_page [OF this, of T 0 data_read0 1] rp have I3: "?I s3" by simp
      show ?thesis
      proof (cases res3)
        case (Inl e)
        with Some True er R2 rp I3 show ?thesis by (simp add: main_def Let_def)
      next
        case (Inr r')
        note R3 = this
        show ?thesis
        proof (cases "dr ! 0 = 0xFF")
          case False
          with Some True er R2 rp R3 I3 show ?thesis by (simp add: main_def Let_def)
        next
          case FF: True
          obtain resW s4 where W: "write_all T fuel pattern 128 0 s3 = (resW, s4)"
            by (cases "write_all T fuel pattern 128 0 s3")
          from latch_write_all [OF I3, of T fuel 0] W have I4: "?I s4" by simp
          show ?thesis
          proof (cases resW)
            case (Inl e)
            with Some True er R2 rp R3 FF W I4 show ?thesis
              by (simp add: main_def Let_def EEPROM_PAGE_SIZE_def)
          next
            case (Inr u)
            note RW = this
            obtain resR s5 where R: "read_all T pattern 128 0 dr (printf ReadAllBack s4) = (resR, s5)"
              by (cases "read_all T pattern 128 0 dr (printf ReadAllBack s4)")
            from I4 have "?I (printf ReadAllBack s4)" by simp
            from latch_read_all [OF this, of T 0 dr] R have I5: "?I s5" by simp
            show ?thesis
            proof (cases resR)
              case (Inl e)
              with Some True er R2 rp R3 FF W RW R I5 show ?thesis
                by (simp add: main_def Let_def EEPROM_PAGE_SIZE_def)
            next
              case (Inr u')
              with Some True er R2 rp R3 FF W RW R fin [OF I5] show ?thesis
                by (simp add: main_def Let_def EEPROM_PAGE_SIZE_def)
            qed
          qed
        qed
      qed
    qed
  qed
qed

lemma timing_startup: "timing (trace (startup d)) = []"
  by (simp add: startup_def)

lemma header_take:
  "0 \<le> len \<Longrightarrow> take (nat (len + 3)) (a # b # c # xs) = a # b # c # take (nat len) xs"
proof -
  assume "0 \<le> len"
  then have "nat (len + 3) = Suc (Suc (Suc (nat len)))" by simp
  then show ?thesis by simp
qed

lemma read_frame_transport:
  "wf_state s \<Longrightarrow> 0 \<le> len \<Longrightarrow>
    transport (trace (snd (snd (read_page T p data len s)))) =
      transport (trace s) @
      [SpiRw (READ # ucast (drop_bit 8 (p * 128)) # ucast (p * 128) # take (nat len) (drop 3 (tx s)))]"
  by (simp add: read_page_transport header_take)

lemma write_frame_transport:
  "wf_state s \<Longrightarrow> 0 \<le> len \<Longrightarrow> len \<le> 128 \<Longrightarrow> nat len \<le> length data \<Longrightarrow>
     transport (trace (snd (write_page T fuel p data len s))) =
       transport (trace s) @
       [SpiWrite [WREN],
        SpiWrite (WRITE # ucast (drop_bit 8 (p * 128)) # ucast (p * 128) # take (nat len) data)] @
       replicate
         (polls T fuel (wr T (wr T (dev s) [WREN])
            (WRITE # ucast (drop_bit 8 (p * 128)) # ucast (p * 128) # take (nat len) data)))
         (SpiRw [RDSR, 0])"
  by (simp add: write_page_transport header_take)

lemma page_alias:
  fixes p :: u16
  shows "word_of_nat (unat p mod 512) * 128 = p * 128"
proof -
  have "unat (word_of_nat (unat p mod 512) * 128 :: u16) = unat (p * 128)"
  proof -
    have "unat (word_of_nat (unat p mod 512) :: u16) = unat p mod 512"
      by (simp add: unat_of_nat)
    then have "unat (word_of_nat (unat p mod 512) * 128 :: u16) = (unat p mod 512 * 128) mod 65536"
      by (simp add: unat_word_ariths)
    also have "\<dots> = (unat p * 128) mod 65536"
    proof -
      have "(unat p * 128) mod (512 * 128) = (unat p mod 512) * 128"
        by (rule mult_mod_left [symmetric, THEN trans]) simp
      then show ?thesis by simp
    qed
    also have "\<dots> = unat (p * 128)" by (simp add: unat_word_ariths)
    finally show ?thesis .
  qed
  then show ?thesis by (rule word_unat_eq_iff [THEN iffD2])
qed

lemma mock_trace:
  "transport (snd (main (mock 0x29 0 1) 0 (Some (0::nat)))) =
     [SpiRw [RDID, 0, 0, 0], SpiWrite [WREN], SpiWrite [CE]]"
proof -
  let ?T = "mock 0x29 0 1"
  have st: "status (identify ?T (0::nat)) = EEPROM_DEVICE_ID"
    unfolding identify_status by (rule mock_run(1))
  have "main ?T 0 (Some (0::nat)) = (Inl OutOfFuel, trace (erase_issue ?T (identify ?T 0)))"
    using st by (simp add: main_def Let_def erase_device_def)
  then show ?thesis
    by (simp add: erase_issue_trace [OF identify_wf] identify_transport)
qed

lemma compare_trace:
  "nat len \<le> length data \<Longrightarrow> nat len \<le> length data_read \<Longrightarrow>
     trace (snd (compare page data data_read len i s)) =
       trace s @ map (\<lambda>j. Printf (Miscompare page j (data ! j) (data_read ! j)))
                   (filter (\<lambda>j. data ! j \<noteq> data_read ! j) [i..<nat len])"
proof (induction page data data_read len i s rule: compare.induct)
  case (1 page data data_read len i s)
  show ?case
  proof (cases "int i < len")
    case False
    then show ?thesis by (subst compare.simps) simp
  next
    case True
    then have il: "i < nat len" by simp
    with "1.prems" have ld: "load data i = Some (data ! i)"
      and lr: "load data_read i = Some (data_read ! i)"
      by (simp_all add: load_def)
    from "1.IH" [OF True ld lr "1.prems"] True ld lr il show ?thesis
      by (subst compare.simps) (simp add: upt_conv_Cons printf_def)
  qed
qed

lemma miscompares_simps [simp]:
  "miscompares [] = []"
  "miscompares (xs @ ys) = miscompares xs @ miscompares ys"
  "miscompares (SpiWrite f # es) = miscompares es"
  "miscompares (SpiRw f # es) = miscompares es"
  "miscompares (Nanosleep n # es) = miscompares es"
  "miscompares (Lib c # es) = miscompares es"
  "miscompares (Printf m # es) = (if is_miscompare (Printf m) then Printf m # miscompares es else miscompares es)"
  by (simp_all add: miscompares_def)

lemma busy_wait_log:
  "wf_state s \<Longrightarrow> \<not> is_miscompare (Printf a) \<Longrightarrow> \<not> is_miscompare (Printf b) \<Longrightarrow>
     miscompares (trace (snd (busy_wait T a b fuel s))) = miscompares (trace s)"
proof (induction fuel arbitrary: s)
  case 0
  then show ?case by simp
next
  case (Suc fuel)
  let ?s1 = "printf a ((snd (read_status_register T s))\<lparr>status := fst (read_status_register T s)\<rparr>)"
  have w: "wf_state ?s1" using Suc.prems by (simp add: rsr_wf)
  show ?case
    using Suc.IH [OF w Suc.prems(2,3)] Suc.prems
    by (simp add: Let_def rsr_eq printf_def)
qed

lemma erase_device_log:
  "wf_state s \<Longrightarrow> miscompares (trace (snd (erase_device T fuel s))) = miscompares (trace s)"
  by (simp add: erase_device_snd busy_wait_log erase_issue_wf erase_issue_trace)

lemma read_page_log:
  "wf_state s \<Longrightarrow>
     miscompares (trace (snd (snd (read_page T p data len s)))) = miscompares (trace s)"
  by (simp add: read_page_s3)

lemma write_page_log:
  assumes "wf_state s" "nat len \<le> length data"
  shows "miscompares (trace (snd (write_page T fuel p data len s))) = miscompares (trace s)"
proof (cases "len \<le> 128")
  case True
  with assms show ?thesis
    by (simp add: write_page_snd busy_wait_log write_issue_wf) (simp add: write_issue_eq)
next
  case False
  then show ?thesis by (simp add: write_page_def EEPROM_PAGE_SIZE_def printf_def)
qed

lemma drop3: "drop 3 xs = drop 1 (drop 2 xs)"
  by (simp add: eval_nat_numeral)

lemma write_page_tx:
  assumes "wf_state s"
  shows "drop 3 (tx (snd (write_page T fuel p pattern 128 s))) = pattern"
proof -
  have l: "length (tx s) = 131" using assms by (simp add: wf_len)
  have w: "wf_state (snd (write_issue T p pattern 128 s))"
    using assms by (simp add: write_issue_wf length_pattern)
  have "drop 2 (tx (snd (write_page T fuel p pattern 128 s))) =
      drop 2 (tx (snd (write_issue T p pattern 128 s)))"
    using assms by (simp add: write_page_snd length_pattern busy_wait_tx [OF w])
  then show ?thesis
    unfolding drop3 using assms l by (simp add: write_issue_eq length_pattern)
qed

lemma write_all_log:
  fixes s :: "'d state"
  assumes "wf_state s"
  shows "miscompares (trace (snd (write_all T fuel pattern 128 page s))) = miscompares (trace s)"
proof -
  let ?I = "\<lambda>s'. wf_state s' \<and> miscompares (trace s') = miscompares (trace s)"
  have "?I (snd (write_all T fuel pattern 128 page s))"
  proof (rule write_all_inv [where I = ?I])
    fix pg and s1 :: "'d state"
    assume "?I s1"
    then show "?I (snd (write_page T fuel pg pattern 128 s1))"
      by (simp add: write_page_wf write_page_log length_pattern)
  next
    show "?I s" using assms by simp
  qed
  then show ?thesis by simp
qed

lemma write_all_tx:
  fixes s :: "'d state"
  assumes "wf_state s" "unat page < EEPROM_NUM_PAGES"
  shows "drop 3 (tx (snd (write_all T fuel pattern 128 page s))) = pattern"
proof -
  let ?I = "\<lambda>s'. wf_state s' \<and> drop 3 (tx s') = pattern"
  have step: "\<And>pg (s1 :: 'd state). wf_state s1 \<Longrightarrow> ?I (snd (write_page T fuel pg pattern 128 s1))"
    by (simp add: write_page_wf write_page_tx length_pattern)
  obtain res s' where wp: "write_page T fuel page pattern 128 s = (res, s')"
    by (cases "write_page T fuel page pattern 128 s")
  from step [OF assms(1), of page] wp have I': "?I s'" by simp
  show ?thesis
  proof (cases res)
    case (Inl e)
    with assms(2) wp I' show ?thesis by (subst write_all.simps) simp
  next
    case (Inr r)
    have "?I (snd (write_all T fuel pattern 128 (page + 1) s'))"
    proof (rule write_all_inv [where I = ?I])
      fix pg and s1 :: "'d state"
      assume "?I s1"
      then show "?I (snd (write_page T fuel pg pattern 128 s1))" using step by simp
    next
      show "?I s'" by (rule I')
    qed
    with assms(2) wp Inr show ?thesis by (subst write_all.simps) simp
  qed
qed

lemma miscompares_messages:
  "miscompares (map (\<lambda>j. Printf (Miscompare p j (f j) (g j))) js) =
     map (\<lambda>j. Printf (Miscompare p j (f j) (g j))) js"
  by (induction js) simp_all

lemma messages_cong:
  assumes "\<And>j. j < n \<Longrightarrow> g j = h j"
  shows "map (\<lambda>j. Printf (Miscompare p j (f j) (g j))) (filter (\<lambda>j. f j \<noteq> g j) [0..<n]) =
         map (\<lambda>j. Printf (Miscompare p j (f j) (h j))) (filter (\<lambda>j. f j \<noteq> h j) [0..<n])"
proof -
  have "filter (\<lambda>j. f j \<noteq> g j) [0..<n] = filter (\<lambda>j. f j \<noteq> h j) [0..<n]"
    by (rule filter_cong) (simp_all add: assms)
  moreover have "map (\<lambda>j. Printf (Miscompare p j (f j) (g j))) (filter (\<lambda>j. f j \<noteq> h j) [0..<n]) =
      map (\<lambda>j. Printf (Miscompare p j (f j) (h j))) (filter (\<lambda>j. f j \<noteq> h j) [0..<n])"
    by (rule map_cong) (simp_all add: assms)
  ultimately show ?thesis by simp
qed

lemma read_frame_pattern:
  "drop 3 xs = pattern \<Longrightarrow> take (nat (128 + 3)) (a # b # c # drop 3 xs) = a # b # c # pattern"
  by (simp add: length_pattern)

lemma read_page_step:
  fixes page :: u16
  defines "F \<equiv> READ # ucast (drop_bit 8 (page * 128)) # ucast (page * 128) # pattern"
  assumes w: "wf_state s" and x: "drop 3 (tx s) = pattern" and l: "length dr = 128"
  shows "fst (read_page T page dr 128 s) = Inr EXIT_SUCCESS"
    and "wf_state (snd (snd (read_page T page dr 128 s)))"
    and "drop 3 (tx (snd (snd (read_page T page dr 128 s)))) = pattern"
    and "dev (snd (snd (read_page T page dr 128 s))) = snd (rw T (dev s) F)"
    and "miscompares (trace (snd (snd (read_page T page dr 128 s)))) = miscompares (trace s)"
    and "length (fst (snd (read_page T page dr 128 s))) = 128"
    and "\<And>j. j < 128 \<Longrightarrow> fst (snd (read_page T page dr 128 s)) ! j = fst (rw T (dev s) F) (j + 3)"
proof -
  have f: "take (nat (128 + 3)) (READ # ucast (drop_bit 8 (page * 128)) # ucast (page * 128)
      # drop 3 (tx s)) = F"
    unfolding F_def using x by (rule read_frame_pattern)
  show "fst (read_page T page dr 128 s) = Inr EXIT_SUCCESS"
    by (rule read_page_ok [OF w]) (simp_all add: l)
  show "wf_state (snd (snd (read_page T page dr 128 s)))" by (rule read_page_wf [OF w])
  show "drop 3 (tx (snd (snd (read_page T page dr 128 s)))) = pattern"
    using x by (simp add: read_page_s3 [OF w])
  show "dev (snd (snd (read_page T page dr 128 s))) = snd (rw T (dev s) F)"
    unfolding f [symmetric] by (simp add: read_page_s3 [OF w])
  show "miscompares (trace (snd (snd (read_page T page dr 128 s)))) = miscompares (trace s)"
    by (rule read_page_log [OF w])
  show "length (fst (snd (read_page T page dr 128 s))) = 128" by (simp add: read_page_length l)
  fix j :: nat assume "j < 128"
  then show "fst (snd (read_page T page dr 128 s)) ! j = fst (rw T (dev s) F) (j + 3)"
    unfolding f [symmetric] using read_page_data [OF w, of 128 dr j T page] l by simp
qed

lemma unat_page_Suc:
  fixes page :: u16
  shows "unat page < EEPROM_NUM_PAGES \<Longrightarrow> unat (page + 1) = Suc (unat page)"
  by (simp add: EEPROM_NUM_PAGES_def unat_word_ariths)

lemma read_all_log:
  "data = pattern \<Longrightarrow> len = 128 \<Longrightarrow> wf_state s \<Longrightarrow> drop 3 (tx s) = pattern \<Longrightarrow>
   length data_read = 128 \<Longrightarrow> unat page \<le> EEPROM_NUM_PAGES \<Longrightarrow>
     miscompares (trace (snd (read_all T data len page data_read s))) =
       miscompares (trace s)
       @ readback_log T (EEPROM_NUM_PAGES - unat page) (unat page) (dev s)"
proof (induction T data len page data_read s rule: read_all.induct)
  case (1 T data len page data_read s)
  note d = "1.prems"(1) and n = "1.prems"(2) and w = "1.prems"(3) and x = "1.prems"(4)
    and l = "1.prems"(5)
  show ?case
  proof (cases "unat page < EEPROM_NUM_PAGES")
    case False
    with "1.prems"(6) have "EEPROM_NUM_PAGES - unat page = 0" by simp
    with False show ?thesis by (subst read_all.simps) simp
  next
    case True
    let ?F = "READ # ucast (drop_bit 8 (page * 128)) # ucast (page * 128) # pattern"
    let ?r = "rw T (dev s) ?F"
    note st = read_page_step [where T = T and page = page, OF w x l]
    obtain res dr s' where rp: "read_page T page data_read 128 s = (res, dr, s')"
      by (cases "read_page T page data_read 128 s")
    from st(1) rp have R: "res = Inr EXIT_SUCCESS" by simp
    from st(2-6) rp have w': "wf_state s'" and x': "drop 3 (tx s') = pattern"
      and d': "dev s' = snd ?r" and m': "miscompares (trace s') = miscompares (trace s)"
      and l': "length dr = 128" by simp_all
    from st(7) rp have b: "\<And>j. j < 128 \<Longrightarrow> dr ! j = fst ?r (j + 3)" by simp
    obtain res' s'' where cp: "compare page pattern dr 128 0 s' = (res', s'')"
      by (cases "compare page pattern dr 128 0 s'")
    from compare_ok [of 128 pattern dr page 0 s'] cp l' have C: "res' = Inr ()"
      by (simp add: length_pattern)
    from compare_frame [of page pattern dr 128 0 s'] cp w'
    have w'': "wf_state s''" and x'': "drop 3 (tx s'') = pattern" and d'': "dev s'' = snd ?r"
      by (simp_all add: wf_state_def x' d')
    from compare_trace [of 128 pattern dr page 0 s'] cp l'
    have "trace s'' = trace s' @ map (\<lambda>j. Printf (Miscompare page j (pattern ! j) (dr ! j)))
        (filter (\<lambda>j. pattern ! j \<noteq> dr ! j) [0..<128])"
      by (simp add: length_pattern)
    also have "map (\<lambda>j. Printf (Miscompare page j (pattern ! j) (dr ! j)))
        (filter (\<lambda>j. pattern ! j \<noteq> dr ! j) [0..<128]) =
      map (\<lambda>j. Printf (Miscompare page j (pattern ! j) (fst ?r (j + 3))))
        (filter (\<lambda>j. pattern ! j \<noteq> fst ?r (j + 3)) [0..<128])"
      by (rule messages_cong) (rule b)
    finally have m'': "miscompares (trace s'') = miscompares (trace s)
        @ map (\<lambda>j. Printf (Miscompare page j (pattern ! j) (fst ?r (j + 3))))
            (filter (\<lambda>j. pattern ! j \<noteq> fst ?r (j + 3)) [0..<128])"
      by (simp add: m' miscompares_messages)
    have su: "unat (page + 1) = Suc (unat page)" by (rule unat_page_Suc [OF True])
    with True have le: "unat (page + 1) \<le> EEPROM_NUM_PAGES" by simp
    have IH: "miscompares (trace (snd (read_all T data len (page + 1) dr s''))) =
        miscompares (trace s'')
        @ readback_log T (EEPROM_NUM_PAGES - unat (page + 1)) (unat (page + 1)) (dev s'')"
      using "1.IH" [OF True _ R refl _ C d n w'' x'' l' le] rp cp d n by simp
    from True have k: "EEPROM_NUM_PAGES - unat page = Suc (EEPROM_NUM_PAGES - Suc (unat page))"
      by simp
    have "readback_log T (EEPROM_NUM_PAGES - unat page) (unat page) (dev s) =
        map (\<lambda>j. Printf (Miscompare page j (pattern ! j) (fst ?r (j + 3))))
            (filter (\<lambda>j. pattern ! j \<noteq> fst ?r (j + 3)) [0..<128])
        @ readback_log T (EEPROM_NUM_PAGES - Suc (unat page)) (Suc (unat page)) (snd ?r)"
      unfolding k by (simp add: Let_def EEPROM_PAGE_SIZE_def)
    with IH m'' su d'' True rp R cp C d n show ?thesis
      by (subst read_all.simps) simp
  qed
qed

lemma identify_log: "miscompares (trace (identify T d)) = []"
  by (simp add: identify_eq) (simp add: startup_def)

lemma dpd_log:
  "wf_state s \<Longrightarrow> miscompares (trace (snd (set_deep_power_down T s))) = miscompares (trace s)"
  by (simp add: dpd_eq)

lemma log_steps [simp]:
  "\<not> is_miscompare (Printf m) \<Longrightarrow> miscompares (trace (printf m s)) = miscompares (trace s)"
  "miscompares (trace (libcall c s)) = miscompares (trace s)"
  "dev (printf m s) = dev s" "tx (printf m s) = tx s"
  by (simp_all add: printf_def libcall_def)

lemma pattern_nth: "j < 128 \<Longrightarrow> pattern ! j = word_of_nat j"
  by (simp add: pattern_def EEPROM_PAGE_SIZE_def)

lemma pattern_not_ff: "j < 128 \<Longrightarrow> pattern ! j \<noteq> 0xFF"
proof -
  assume j: "j < 128"
  then have "unat (word_of_nat j :: u8) = j" by (simp add: unat_of_nat)
  with j have "unat (word_of_nat j :: u8) \<noteq> unat (0xFF :: u8)" by simp
  then have "(word_of_nat j :: u8) \<noteq> 0xFF" by auto
  with j show ?thesis by (simp add: pattern_nth)
qed

lemma mock_readback_length:
  "length (readback_log (mock sig 0xFF k) n p d) = n * 128"
proof (induction n arbitrary: p d)
  case 0
  then show ?case by simp
next
  case (Suc n)
  have "filter (\<lambda>j. pattern ! j \<noteq> 0xFF) [0..<128] = [0..<128]"
    by (rule filter_True) (simp add: pattern_not_ff)
  with Suc.IH show ?case
    by (simp add: Let_def mock_simps opcode_defs EEPROM_PAGE_SIZE_def)
qed

subsection \<open>The claims\<close>

text \<open>
  C1. A call of \<open>write_page\<close> with \<open>len\<close> above the page size of 128 returns
  \<open>EXIT_FAILURE\<close> and makes no transport call: the state it leaves differs from the one
  it found by the message it prints and nothing else, so no write-enable is sent, nothing
  is transmitted, the device is not touched and the status register is not polled.
\<close>

theorem write_page_too_long:
  "int EEPROM_PAGE_SIZE < len \<Longrightarrow>
     write_page T fuel page_address data len s =
       (Inr EXIT_FAILURE, s\<lparr>trace := trace s @ [Printf PageSizeIs128]\<rparr>)
     \<and> transport (trace (snd (write_page T fuel page_address data len s))) = transport (trace s)
     \<and> dev (snd (write_page T fuel page_address data len s)) = dev s"
  by (simp add: write_page_def EEPROM_PAGE_SIZE_def printf_def transport_def)

theorem write_page_too_long_witness:
  "int EEPROM_PAGE_SIZE < 129
   \<and> write_page (mock 0x29 0xFF 0) 1 0 pattern 129 (startup (0::nat)) =
       (Inr EXIT_FAILURE,
        (startup (0::nat))\<lparr>trace := trace (startup (0::nat)) @ [Printf PageSizeIs128]\<rparr>)
   \<and> transport (trace (snd (write_page (mock 0x29 0xFF 0) 1 0 pattern 129 (startup (0::nat))))) =
       transport (trace (startup (0::nat)))
   \<and> dev (snd (write_page (mock 0x29 0xFF 0) 1 0 pattern 129 (startup (0::nat)))) =
       dev (startup (0::nat))"
proof -
  have h: "int EEPROM_PAGE_SIZE < 129" by (simp add: EEPROM_PAGE_SIZE_def)
  from write_page_too_long [OF h] h show ?thesis by blast
qed

text \<open>
  C2. When the byte \<open>release_pwrdwn_read_sig\<close> returns is not the expected device ID 0x29,
  \<open>main\<close> returns \<open>EXIT_FAILURE\<close>, and the transport calls of the whole run are two: the
  signature request and the deep-power-down opcode. No frame with the write-enable, the
  chip-erase or the write opcode is sent.
\<close>

theorem main_wrong_device:
  assumes "fst (release_pwrdwn_read_sig T (startup d)) \<noteq> EEPROM_DEVICE_ID"
  shows "fst (main T fuel (Some d)) = Inr EXIT_FAILURE
       \<and> transport (snd (main T fuel (Some d))) = [SpiRw [RDID, 0, 0, 0], SpiWrite [DPD]]"
proof -
  let ?s1 = "identify T d"
  from assms have ne: "status ?s1 \<noteq> EEPROM_DEVICE_ID" by (simp add: identify_status)
  have w: "wf_state (printf WrongDevice ?s1)" by (simp add: identify_wf)
  have m: "main T fuel (Some d) =
      (Inr EXIT_FAILURE,
       trace (libcall SpiFree (snd (set_deep_power_down T (printf WrongDevice ?s1)))))"
    using ne by (simp add: main_def Let_def)
  have "transport (trace (libcall SpiFree (snd (set_deep_power_down T (printf WrongDevice ?s1)))))
      = [SpiRw [RDID, 0, 0, 0], SpiWrite [DPD]]"
    by (simp add: libcall_def dpd_transport [OF w]) (simp add: printf_def identify_transport)
  with m show ?thesis by simp
qed

theorem main_wrong_device_witness:
  "fst (release_pwrdwn_read_sig (mock 0 0xFF 0) (startup (0::nat))) \<noteq> EEPROM_DEVICE_ID
   \<and> fst (main (mock 0 0xFF 0) 1 (Some (0::nat))) = Inr EXIT_FAILURE
   \<and> transport (snd (main (mock 0 0xFF 0) 1 (Some (0::nat)))) = [SpiRw [RDID, 0, 0, 0], SpiWrite [DPD]]"
proof -
  have h: "fst (release_pwrdwn_read_sig (mock 0 0xFF 0) (startup (0::nat))) \<noteq> EEPROM_DEVICE_ID"
    by (simp add: sig_eq wf_startup mock_def EEPROM_DEVICE_ID_def)
  from main_wrong_device [OF h] h show ?thesis by blast
qed

text \<open>
  C3. When the device ID matches, \<open>erase_device\<close> returns and the byte read back at page 0,
  byte 0 is 0xFF, the exit status of \<open>main\<close> is \<open>EXIT_SUCCESS\<close> whatever the device
  answers during the final readback: the run never ends in \<open>EXIT_FAILURE\<close> or in an index
  outside an array, it can only fail to return by waiting on a busy device, and on a device
  that is responsive within \<open>fuel\<close> polls it does return \<open>EXIT_SUCCESS\<close>. The miscompares are
  logged all the same: when \<open>main\<close> returns, the miscompare messages in its trace are, page
  by page from 0 to 511 and byte by byte, one message for each byte the device answered that
  differs from the pattern, and no others; a run that does not get as far as the readback
  prints none.
\<close>

theorem main_ignores_miscompares:
  fixes T :: "'d spi"
  assumes id: "fst (release_pwrdwn_read_sig T (startup d)) = EEPROM_DEVICE_ID"
    and er': "fst (erase_device T fuel (identify T d)) = Inr r"
    and ff': "erase_check_byte T fuel d = 0xFF"
  shows "(fst (main T fuel (Some d)) = Inr EXIT_SUCCESS \<or> fst (main T fuel (Some d)) = Inl OutOfFuel)
       \<and> (responsive T fuel \<longrightarrow> fst (main T fuel (Some d)) = Inr EXIT_SUCCESS)
       \<and> miscompares (snd (main T fuel (Some d))) =
           (if fst (main T fuel (Some d)) = Inr EXIT_SUCCESS
            then readback_log T EEPROM_NUM_PAGES 0 (dev (after_writes T fuel d))
            else [])"
proof -
  from id have st: "status (identify T d) = EEPROM_DEVICE_ID" by (simp add: identify_status)
  obtain s2 where er: "erase_device T fuel (identify T d) = (Inr r, s2)"
    using er' by (cases "erase_device T fuel (identify T d)") simp
  then have s2: "s2 = snd (erase_device T fuel (identify T d))" by simp
  have w2: "wf_state (printf ReadingPage0 s2)"
    unfolding s2 by (simp add: erase_device_wf [OF identify_wf])
  have g2: "miscompares (trace (printf ReadingPage0 s2)) = []"
    unfolding s2 by (simp add: erase_device_log [OF identify_wf] identify_log)
  obtain dr s3 where rp: "read_page T 0 data_read0 1 (printf ReadingPage0 s2) =
      (Inr EXIT_SUCCESS, dr, s3)"
    using read_page_ok [OF w2, of 1 data_read0 T 0]
    by (cases "read_page T 0 data_read0 1 (printf ReadingPage0 s2)")
       (simp add: length_data_read0)
  from ff' rp have ff: "dr ! 0 = 0xFF" by (simp add: erase_check_byte_def s2 Let_def)
  from rp have s3: "s3 = snd (snd (read_page T 0 data_read0 1 (printf ReadingPage0 s2)))"
    and dr: "dr = fst (snd (read_page T 0 data_read0 1 (printf ReadingPage0 s2)))" by simp_all
  have w3: "wf_state s3" unfolding s3 by (rule read_page_wf [OF w2])
  have g3: "miscompares (trace s3) = []" unfolding s3 by (simp add: read_page_log [OF w2] g2)
  have ldr: "length dr = 128" unfolding dr by (simp add: read_page_length length_data_read0)
  let ?W = "write_all T fuel pattern (int EEPROM_PAGE_SIZE) 0 s3"
  have aw: "after_writes T fuel d = snd ?W"
    by (simp add: after_writes_def Let_def s3 s2)
  have w4: "wf_state (printf ReadAllBack (snd ?W))"
    using w3 by (simp add: write_all_wf length_pattern EEPROM_PAGE_SIZE_def)
  have g4: "miscompares (trace (snd ?W)) = []"
    using write_all_log [OF w3, of T fuel 0] by (simp add: EEPROM_PAGE_SIZE_def g3)
  have x4: "drop 3 (tx (snd ?W)) = pattern"
    using write_all_tx [OF w3, of 0 T fuel] by (simp add: EEPROM_PAGE_SIZE_def EEPROM_NUM_PAGES_def)
  let ?R = "read_all T pattern (int EEPROM_PAGE_SIZE) 0 dr (printf ReadAllBack (snd ?W))"
  have R: "fst ?R = Inr ()"
    by (rule read_all_ok [OF w4]) (simp_all add: EEPROM_PAGE_SIZE_def length_pattern ldr)
  have g5: "miscompares (trace (snd ?R)) =
      readback_log T EEPROM_NUM_PAGES 0 (dev (after_writes T fuel d))"
    using read_all_log [OF refl _ w4 _ ldr, of "int EEPROM_PAGE_SIZE" 0 T] x4 g4
    by (simp add: EEPROM_PAGE_SIZE_def aw)
  have w5: "wf_state (printf TestComplete (snd ?R))"
    using read_all_inv [where I = wf_state, OF _ _ w4] by (simp add: read_page_wf compare_wf)
  obtain resW s4 where W: "?W = (resW, s4)" by (cases ?W)
  obtain resR s5 where R': "read_all T pattern (int EEPROM_PAGE_SIZE) 0 dr (printf ReadAllBack s4)
      = (resR, s5)"
    by (cases "read_all T pattern (int EEPROM_PAGE_SIZE) 0 dr (printf ReadAllBack s4)")
  from R W R' have resR: "resR = Inr ()" by simp
  have m: "main T fuel (Some d) =
      (case resW of
         Inl e \<Rightarrow> (Inl e, trace s4)
       | Inr u \<Rightarrow> (Inr EXIT_SUCCESS,
            trace (libcall SpiFree (snd (set_deep_power_down T (printf TestComplete s5))))))"
    using st er rp ff W R' resR
    by (cases resW) (simp_all add: main_def Let_def)
  have a: "resW = Inl OutOfFuel \<or> resW = Inr ()"
  proof (cases resW)
    case (Inl e)
    with W have "fst ?W = Inl e" by simp
    from write_all_stop [OF w3 _ this] show ?thesis
      using Inl by (simp add: EEPROM_PAGE_SIZE_def length_pattern)
  next
    case (Inr u)
    then show ?thesis by simp
  qed
  have b: "responsive T fuel \<Longrightarrow> resW = Inr ()"
    using write_all_responsive [OF w3, of "int EEPROM_PAGE_SIZE" pattern T fuel 0] W
    by (simp add: EEPROM_PAGE_SIZE_def length_pattern)
  have c: "miscompares (trace s4) = []" using g4 W by simp
  have e: "miscompares (trace (libcall SpiFree (snd (set_deep_power_down T (printf TestComplete s5)))))
      = readback_log T EEPROM_NUM_PAGES 0 (dev (after_writes T fuel d))"
    using w5 g5 W R' by (simp add: dpd_log)
  from a b c e show ?thesis unfolding m by (auto simp: EXIT_SUCCESS_def)
qed

theorem main_ignores_miscompares_witness:
  "fst (release_pwrdwn_read_sig (mock 0x29 0xFF 1) (startup (0::nat))) = EEPROM_DEVICE_ID
   \<and> fst (erase_device (mock 0x29 0xFF 1) 2 (identify (mock 0x29 0xFF 1) (0::nat))) = Inr EXIT_SUCCESS
   \<and> erase_check_byte (mock 0x29 0xFF 1) 2 (0::nat) = 0xFF
   \<and> responsive (mock 0x29 0xFF 1) 2
   \<and> fst (main (mock 0x29 0xFF 1) 2 (Some (0::nat))) = Inr EXIT_SUCCESS
   \<and> miscompares (snd (main (mock 0x29 0xFF 1) 2 (Some (0::nat)))) =
       readback_log (mock 0x29 0xFF 1) EEPROM_NUM_PAGES 0 (dev (after_writes (mock 0x29 0xFF 1) 2 (0::nat)))
   \<and> length (miscompares (snd (main (mock 0x29 0xFF 1) 2 (Some (0::nat))))) = 512 * 128"
proof -
  note h = mock_run [of "0xFF"]
  note r = mock_responsive [of "0x29" "0xFF"]
  note c = main_ignores_miscompares [OF h]
  from c r have ok: "fst (main (mock 0x29 0xFF 1) 2 (Some (0::nat))) = Inr EXIT_SUCCESS" by blast
  with c have lg: "miscompares (snd (main (mock 0x29 0xFF 1) 2 (Some (0::nat)))) =
      readback_log (mock 0x29 0xFF 1) EEPROM_NUM_PAGES 0
        (dev (after_writes (mock 0x29 0xFF 1) 2 (0::nat)))"
    by simp
  have "length (miscompares (snd (main (mock 0x29 0xFF 1) 2 (Some (0::nat))))) = 512 * 128"
    unfolding lg mock_readback_length by (simp add: EEPROM_NUM_PAGES_def)
  with h r ok lg show ?thesis by blast
qed

text \<open>
  C4, as the code has it. The fixed delay is slept once, after the command frame has been
  sent and before the first status poll. The loop itself sleeps nowhere: it reads the
  status register, and goes round again at once while bit 0 is set. So of the events that
  matter for timing, the loop adds status polls only, one after the other; \<open>erase_device\<close>
  adds write-enable, chip erase, one sleep of \<open>EEPROM_ERASE_DELAY\<close>, then the polls;
  \<open>write_page\<close> adds write-enable, the write frame, one sleep of \<open>EEPROM_WRITE_DELAY\<close>,
  then the polls.
\<close>

theorem busy_wait_single_sleep:
  fixes p :: u16
  defines "frame \<equiv> \<lambda>len data. WRITE # ucast (drop_bit 8 (p * 128)) # ucast (p * 128) # take (nat len) data"
  assumes "wf_state s"
  shows "timing (trace (snd (busy_wait T busy done fuel s))) =
           timing (trace s) @ replicate (polls T fuel (dev s)) (SpiRw [RDSR, 0])
       \<and> timing (trace (snd (erase_device T fuel s))) =
           timing (trace s)
           @ [SpiWrite [WREN], SpiWrite [CE], Nanosleep EEPROM_ERASE_DELAY]
           @ replicate (polls T fuel (wr T (wr T (dev s) [WREN]) [CE])) (SpiRw [RDSR, 0])
       \<and> (0 \<le> len \<and> len \<le> 128 \<and> nat len \<le> length data \<longrightarrow>
           timing (trace (snd (write_page T fuel p data len s))) =
             timing (trace s)
             @ [SpiWrite [WREN], SpiWrite (frame len data), Nanosleep EEPROM_WRITE_DELAY]
             @ replicate (polls T fuel (wr T (wr T (dev s) [WREN]) (frame len data)))
                 (SpiRw [RDSR, 0]))"
  using assms(2)
  by (simp add: busy_wait_timing erase_device_timing write_page_timing header_take frame_def)

theorem busy_wait_single_sleep_witness:
  "wf_state (startup (0::nat))
   \<and> (0::int) \<le> 128 \<and> (128::int) \<le> 128 \<and> nat 128 \<le> length pattern
   \<and> timing (trace (snd (erase_device (mock 0x29 0xFF 1) 2 (startup (0::nat))))) =
       [SpiWrite [WREN], SpiWrite [CE], Nanosleep EEPROM_ERASE_DELAY,
        SpiRw [RDSR, 0], SpiRw [RDSR, 0]]
   \<and> timing (trace (snd (write_page (mock 0x29 0xFF 1) 2 0 pattern 128 (startup (0::nat))))) =
       [SpiWrite [WREN], SpiWrite (WRITE # 0 # 0 # pattern), Nanosleep EEPROM_WRITE_DELAY,
        SpiRw [RDSR, 0], SpiRw [RDSR, 0]]"
proof -
  have h: "(0::int) \<le> 128 \<and> (128::int) \<le> 128 \<and> nat 128 \<le> length pattern"
    by (simp add: length_pattern)
  have r: "replicate 2 (SpiRw [RDSR, 0]) = [SpiRw [RDSR, 0], SpiRw [RDSR, 0]]"
    by (simp add: numeral_2_eq_2)
  have p: "take (nat 128) pattern = pattern" by (simp add: length_pattern)
  note c = busy_wait_single_sleep [OF wf_startup, of "mock 0x29 0xFF 1" ReadingStatus ReadingStatus 2
      "0::nat" 128 pattern 0, unfolded mock_polls r timing_startup p]
  from c h wf_startup [of "0::nat"] show ?thesis by simp
qed

text \<open>
  The policy as the specification words it does not hold of the code. On a chip that is
  still busy at the first poll after a chip erase, \<open>erase_device\<close> polls the status register
  twice in a row with no sleep between the two polls.
\<close>

theorem busy_wait_policy_counterexample:
  "\<not> sleep_between_polls (trace (snd (erase_device (mock 0x29 0xFF 1) 2 (startup (0::nat)))))"
proof -
  have "timing (trace (snd (erase_device (mock 0x29 0xFF 1) 2 (startup (0::nat))))) =
      [SpiWrite [WREN], SpiWrite [CE], Nanosleep EEPROM_ERASE_DELAY] @ replicate 2 (SpiRw [RDSR, 0])"
    by (simp only: erase_device_timing [OF wf_startup] timing_startup mock_polls append_Nil)
  then show ?thesis
    by (simp add: sleep_between_polls_def numeral_2_eq_2)
qed

text \<open>
  C5. If the status byte the device gives after \<open>N\<close> earlier polls has bit 0 clear, then
  with more than \<open>N\<close> polls allowed the busy-wait loop ends, and so do \<open>erase_device\<close> and
  \<open>write_page\<close> (which then return \<open>EXIT_SUCCESS\<close>); the variable \<open>status\<close>, which holds
  the last status byte read, has bit 0 clear at that point.
\<close>

theorem busy_wait_terminates:
  fixes p :: u16
  defines "frame \<equiv> \<lambda>len data. WRITE # ucast (drop_bit 8 (p * 128)) # ucast (p * 128) # take (nat len) data"
  assumes "wf_state s" and "N < fuel"
  shows "(status_after T N (dev s) AND 0x01 = 0 \<longrightarrow>
           (\<exists>s'. busy_wait T busy done fuel s = (Inr (), s') \<and> status s' AND 0x01 = 0))
       \<and> (status_after T N (wr T (wr T (dev s) [WREN]) [CE]) AND 0x01 = 0 \<longrightarrow>
           (\<exists>s'. erase_device T fuel s = (Inr EXIT_SUCCESS, s') \<and> status s' AND 0x01 = 0))
       \<and> (0 \<le> len \<and> len \<le> 128 \<and> nat len \<le> length data
            \<and> status_after T N (wr T (wr T (dev s) [WREN]) (frame len data)) AND 0x01 = 0 \<longrightarrow>
           (\<exists>s'. write_page T fuel p data len s = (Inr EXIT_SUCCESS, s') \<and> status s' AND 0x01 = 0))"
proof (intro conjI impI)
  assume "status_after T N (dev s) AND 0x01 = 0"
  from busy_wait_returns [OF assms(2) this assms(3)]
  show "\<exists>s'. busy_wait T busy done fuel s = (Inr (), s') \<and> status s' AND 0x01 = 0" .
next
  assume "status_after T N (wr T (wr T (dev s) [WREN]) [CE]) AND 0x01 = 0"
  from erase_device_returns [OF assms(2) this assms(3)]
  show "\<exists>s'. erase_device T fuel s = (Inr EXIT_SUCCESS, s') \<and> status s' AND 0x01 = 0" .
next
  assume a: "0 \<le> len \<and> len \<le> 128 \<and> nat len \<le> length data
      \<and> status_after T N (wr T (wr T (dev s) [WREN]) (frame len data)) AND 0x01 = 0"
  then have "status_after T N (wr T (wr T (dev s) [WREN])
       (take (nat (len + 3))
          ([WRITE, ucast (drop_bit 8 (p * 128)), ucast (p * 128)] @ take (nat len) data)))
      AND 0x01 = 0"
    by (simp add: frame_def header_take)
  from write_page_returns [OF assms(2) _ _ this assms(3)] a
  show "\<exists>s'. write_page T fuel p data len s = (Inr EXIT_SUCCESS, s') \<and> status s' AND 0x01 = 0"
    by simp
qed

theorem busy_wait_terminates_witness:
  "wf_state (startup (1::nat)) \<and> (1::nat) < 2
   \<and> status_after (mock 0x29 0xFF 1) 1 (dev (startup (1::nat))) AND 0x01 = 0
   \<and> status_after (mock 0x29 0xFF 1) 1
        (wr (mock 0x29 0xFF 1) (wr (mock 0x29 0xFF 1) (dev (startup (1::nat))) [WREN]) [CE])
        AND 0x01 = 0
   \<and> (0::int) \<le> 128 \<and> (128::int) \<le> 128 \<and> nat 128 \<le> length pattern
   \<and> status_after (mock 0x29 0xFF 1) 1
        (wr (mock 0x29 0xFF 1) (wr (mock 0x29 0xFF 1) (dev (startup (1::nat))) [WREN])
           (WRITE # ucast (drop_bit 8 (5 * 128 :: u16)) # ucast (5 * 128 :: u16)
              # take (nat 128) pattern))
        AND 0x01 = 0
   \<and> (\<exists>s'. busy_wait (mock 0x29 0xFF 1) WriteInProgress WriteFinished 2 (startup (1::nat)) = (Inr (), s')
          \<and> status s' AND 0x01 = 0)
   \<and> (\<exists>s'. erase_device (mock 0x29 0xFF 1) 2 (startup (1::nat)) = (Inr EXIT_SUCCESS, s')
          \<and> status s' AND 0x01 = 0)
   \<and> (\<exists>s'. write_page (mock 0x29 0xFF 1) 2 5 pattern 128 (startup (1::nat)) = (Inr EXIT_SUCCESS, s')
          \<and> status s' AND 0x01 = 0)"
proof -
  have w: "wf_state (startup (1::nat))" by (rule wf_startup)
  have n: "(1::nat) < 2" by simp
  have a: "status_after (mock 0x29 0xFF 1) 1 (dev (startup (1::nat))) AND 0x01 = 0"
    by (simp add: startup_def mock_simps opcode_defs)
  have l: "(0::int) \<le> 128 \<and> (128::int) \<le> 128 \<and> nat 128 \<le> length pattern"
    by (simp add: length_pattern)
  note c = busy_wait_terminates [OF w n, of "mock 0x29 0xFF 1" WriteInProgress WriteFinished
      128 pattern 5]
  from c a l mock_clear [of "0x29" "0xFF"] w n show ?thesis
    by blast
qed

text \<open>
  C6. For a page index \<open>p\<close> below \<open>EEPROM_NUM_PAGES\<close> = 512, the byte offset \<open>p * 128\<close> is
  at most \<open>EEPROM_SIZE - 128\<close>, and both \<open>write_page\<close> and \<open>read_page\<close> send it as two bytes,
  high byte first, directly after the opcode. (The calls are those that send a whole frame:
  \<open>len\<close> from 0 to 128, with \<open>len\<close> bytes of data to send.)
\<close>

theorem page_offset_big_endian:
  fixes p :: u16
  defines "hi \<equiv> (ucast (drop_bit 8 (p * 128)) :: u8)"
  defines "lo \<equiv> (ucast (p * 128) :: u8)"
  assumes "unat p < EEPROM_NUM_PAGES" and "wf_state s"
    and "0 \<le> len" and "len \<le> 128" and "nat len \<le> length data"
  shows "unat p * EEPROM_PAGE_SIZE + EEPROM_PAGE_SIZE \<le> EEPROM_SIZE
       \<and> unat hi * 256 + unat lo = unat p * EEPROM_PAGE_SIZE
       \<and> transport (trace (snd (write_page T fuel p data len s))) =
           transport (trace s)
           @ [SpiWrite [WREN], SpiWrite (WRITE # hi # lo # take (nat len) data)]
           @ replicate (polls T fuel (wr T (wr T (dev s) [WREN])
                          (WRITE # hi # lo # take (nat len) data)))
               (SpiRw [RDSR, 0])
       \<and> transport (trace (snd (snd (read_page T p data len s)))) =
           transport (trace s) @ [SpiRw (READ # hi # lo # take (nat len) (drop 3 (tx s)))]"
proof -
  from assms(3) have p: "unat p < 512" by (simp add: EEPROM_NUM_PAGES_def)
  then have "unat p * EEPROM_PAGE_SIZE + EEPROM_PAGE_SIZE \<le> EEPROM_SIZE"
    by (simp add: EEPROM_PAGE_SIZE_def EEPROM_SIZE_def)
  moreover have "unat hi * 256 + unat lo = unat p * EEPROM_PAGE_SIZE"
    unfolding hi_def lo_def address_bytes using p by (simp add: EEPROM_PAGE_SIZE_def)
  ultimately show ?thesis
    unfolding hi_def lo_def
    using write_frame_transport [OF assms(4-7), of T fuel p]
      read_frame_transport [OF assms(4,5), of T p data]
    by simp
qed

theorem page_offset_big_endian_witness:
  "unat (511 :: u16) < EEPROM_NUM_PAGES \<and> wf_state (startup (1::nat))
   \<and> (0::int) \<le> 128 \<and> (128::int) \<le> 128 \<and> nat 128 \<le> length pattern
   \<and> unat (511 :: u16) * EEPROM_PAGE_SIZE + EEPROM_PAGE_SIZE \<le> EEPROM_SIZE
   \<and> unat (ucast (drop_bit 8 (511 * 128 :: u16)) :: u8) * 256
       + unat (ucast (511 * 128 :: u16) :: u8) = unat (511 :: u16) * EEPROM_PAGE_SIZE
   \<and> transport (trace (snd (write_page (mock 0x29 0xFF 1) 2 511 pattern 128 (startup (1::nat))))) =
       [SpiWrite [WREN], SpiWrite (WRITE # 0xFF # 0x80 # pattern), SpiRw [RDSR, 0], SpiRw [RDSR, 0]]
   \<and> transport (trace (snd (snd (read_page (mock 0x29 0xFF 1) 511 pattern 128 (startup (1::nat)))))) =
       [SpiRw (READ # 0xFF # 0x80 # replicate 128 0)]"
proof -
  have h1: "unat (511 :: u16) < EEPROM_NUM_PAGES" by (simp add: EEPROM_NUM_PAGES_def)
  have h2: "wf_state (startup (1::nat))" by (rule wf_startup)
  have h3: "(0::int) \<le> 128" "(128::int) \<le> 128" "nat 128 \<le> length pattern"
    by (simp_all add: length_pattern)
  have r: "replicate 2 (SpiRw [RDSR, 0]) = [SpiRw [RDSR, 0], SpiRw [RDSR, 0]]"
    by (simp add: numeral_2_eq_2)
  have t: "take (nat 128) pattern = pattern" by (simp add: length_pattern)
  have x: "take (nat 128) (drop 3 (tx (startup (1::nat)))) = replicate 128 0"
    by (simp add: startup_def BUF_SIZE_def EEPROM_PAGE_SIZE_def)
  have e: "transport (trace (startup (1::nat))) = []" by (simp add: startup_def)
  have b: "(ucast (drop_bit 8 (511 * 128 :: u16)) :: u8) = 0xFF" "(ucast (511 * 128 :: u16) :: u8) = 0x80"
    by simp_all
  note c = page_offset_big_endian [OF h1 h2 h3, of "mock 0x29 0xFF 1" 2,
      unfolded mock_polls r t x e]
  from c h1 h2 h3 show ?thesis by (simp add: b)
qed

text \<open>
  C7. When the device ID matches and \<open>erase_device\<close> returns, \<open>main\<close> reads one byte at
  page 0, byte 0 (a read frame with address 0 and one more byte); if that byte is not 0xFF it
  returns \<open>EXIT_FAILURE\<close>, and the read frame is the last transport call of the run: no
  write frame is ever sent.
\<close>

theorem main_erase_check:
  assumes id: "fst (release_pwrdwn_read_sig T (startup d)) = EEPROM_DEVICE_ID"
    and er': "fst (erase_device T fuel (identify T d)) = Inr r"
    and ff': "erase_check_byte T fuel d \<noteq> 0xFF"
  shows "fst (main T fuel (Some d)) = Inr EXIT_FAILURE
       \<and> transport (snd (main T fuel (Some d))) =
           [SpiRw [RDID, 0, 0, 0], SpiWrite [WREN], SpiWrite [CE]]
           @ replicate (polls T fuel (wr T (wr T (dev (identify T d)) [WREN]) [CE]))
               (SpiRw [RDSR, 0])
           @ [SpiRw [READ, 0, 0, 0]]"
proof -
  from id have st: "status (identify T d) = EEPROM_DEVICE_ID" by (simp add: identify_status)
  obtain s2 where er: "erase_device T fuel (identify T d) = (Inr r, s2)"
    using er' by (cases "erase_device T fuel (identify T d)") simp
  then have s2: "s2 = snd (erase_device T fuel (identify T d))" by simp
  have w2: "wf_state s2" unfolding s2 by (rule erase_device_wf [OF identify_wf])
  have w2': "wf_state (printf ReadingPage0 s2)" using w2 by simp
  obtain dr s3 where rp: "read_page T 0 data_read0 1 (printf ReadingPage0 s2) =
      (Inr EXIT_SUCCESS, dr, s3)"
    using read_page_ok [OF w2', of 1 data_read0 T 0]
    by (cases "read_page T 0 data_read0 1 (printf ReadingPage0 s2)")
       (simp add: length_data_read0)
  from ff' rp have ff: "dr ! 0 \<noteq> 0xFF" by (simp add: erase_check_byte_def s2 Let_def)
  have t2: "transport (trace s2) =
      [SpiRw [RDID, 0, 0, 0], SpiWrite [WREN], SpiWrite [CE]]
      @ replicate (polls T fuel (wr T (wr T (dev (identify T d)) [WREN]) [CE])) (SpiRw [RDSR, 0])"
    unfolding s2 by (simp add: erase_device_transport [OF identify_wf] identify_transport)
  have x2: "drop 2 (tx s2) = replicate 129 0"
    unfolding s2 by (simp add: erase_device_tx [OF identify_wf] identify_tx)
  from rp have s3: "s3 = snd (snd (read_page T 0 data_read0 1 (printf ReadingPage0 s2)))" by simp
  have t3: "transport (trace s3) = transport (trace s2) @ [SpiRw [READ, 0, 0, 0]]"
    unfolding s3 using check_frame [OF x2]
    by (simp add: read_page_transport [OF w2']) (simp add: printf_def)
  have m: "main T fuel (Some d) =
      (Inr EXIT_FAILURE, trace (libcall SpiFree (printf (ExpectedFF (dr ! 0)) s3)))"
    using st er rp ff by (simp add: main_def Let_def)
  show ?thesis unfolding m by (simp add: libcall_def printf_def t3 t2)
qed

theorem main_erase_check_witness:
  "fst (release_pwrdwn_read_sig (mock 0x29 0 1) (startup (0::nat))) = EEPROM_DEVICE_ID
   \<and> fst (erase_device (mock 0x29 0 1) 2 (identify (mock 0x29 0 1) (0::nat))) = Inr EXIT_SUCCESS
   \<and> erase_check_byte (mock 0x29 0 1) 2 (0::nat) \<noteq> 0xFF
   \<and> fst (main (mock 0x29 0 1) 2 (Some (0::nat))) = Inr EXIT_FAILURE
   \<and> transport (snd (main (mock 0x29 0 1) 2 (Some (0::nat)))) =
       [SpiRw [RDID, 0, 0, 0], SpiWrite [WREN], SpiWrite [CE], SpiRw [RDSR, 0], SpiRw [RDSR, 0],
        SpiRw [READ, 0, 0, 0]]"
proof -
  note h = mock_run [of 0]
  have b: "erase_check_byte (mock 0x29 0 1) 2 (0::nat) \<noteq> 0xFF" unfolding h(3) by simp
  have r: "replicate 2 (SpiRw [RDSR, 0]) = [SpiRw [RDSR, 0], SpiRw [RDSR, 0]]"
    by (simp add: numeral_2_eq_2)
  note c = main_erase_check [OF h(1,2) b, unfolded mock_polls r]
  from c h(1,2) b show ?thesis by simp
qed

text \<open>
  C8. In the list of transport calls of any run of \<open>main\<close> (finished, stopped at an index
  outside an array or still waiting on a busy device), every call whose frame starts with
  the chip-erase opcode 0xC7 or the write opcode 0x02 is not the first call, and the call
  just before it is \<open>libsoc_spi_write\<close> of the single byte 0x06, the write-enable opcode.
\<close>

theorem main_wren_precedes:
  assumes "i < length (transport (snd (main T fuel spi_dev)))"
    and "needs_wren (transport (snd (main T fuel spi_dev)) ! i)"
  shows "0 < i \<and> transport (snd (main T fuel spi_dev)) ! (i - 1) = SpiWrite [WREN]"
  using main_latch [of T fuel spi_dev, unfolded wren_guarded_nth, rule_format, OF assms]
  by (cases "i = 0") simp_all

theorem main_wren_precedes_witness:
  "2 < length (transport (snd (main (mock 0x29 0 1) 0 (Some (0::nat)))))
   \<and> needs_wren (transport (snd (main (mock 0x29 0 1) 0 (Some (0::nat)))) ! 2)
   \<and> transport (snd (main (mock 0x29 0 1) 0 (Some (0::nat)))) ! 2 = SpiWrite [CE]
   \<and> (0::nat) < 2
   \<and> transport (snd (main (mock 0x29 0 1) 0 (Some (0::nat)))) ! (2 - 1) = SpiWrite [WREN]"
proof -
  have h1: "2 < length (transport (snd (main (mock 0x29 0 1) 0 (Some (0::nat)))))"
    unfolding mock_trace by simp
  have e: "transport (snd (main (mock 0x29 0 1) 0 (Some (0::nat)))) ! 2 = SpiWrite [CE]"
    unfolding mock_trace by simp
  have h2: "needs_wren (transport (snd (main (mock 0x29 0 1) 0 (Some (0::nat)))) ! 2)"
    unfolding e by simp
  from main_wren_precedes [OF h1 h2] h1 h2 e show ?thesis by blast
qed

text \<open>
  C9. \<open>read_page\<close> does not check \<open>len\<close>. Called with a buffer of at least a page, it
  ends at an index outside \<open>rx\<close> (index \<open>BUF_SIZE\<close> = 131, the first one past the end)
  exactly when \<open>len\<close> is above 128, and returns \<open>EXIT_SUCCESS\<close> otherwise; \<open>write_page\<close>
  with such a \<open>len\<close> returns \<open>EXIT_FAILURE\<close> instead.
\<close>

theorem read_page_unchecked_len:
  assumes "wf_state s" and "EEPROM_PAGE_SIZE \<le> length data"
  shows "fst (read_page T p data len s) =
           (if int EEPROM_PAGE_SIZE < len then Inl (OutOfBounds RX BUF_SIZE) else Inr EXIT_SUCCESS)
       \<and> (int EEPROM_PAGE_SIZE < len \<longrightarrow> fst (write_page T fuel p data len s) = Inr EXIT_FAILURE)"
proof (cases "128 < len")
  case True
  from read_page_overrun [OF assms(1) True, of data T p] assms(2) True show ?thesis
    by (simp add: EEPROM_PAGE_SIZE_def BUF_SIZE_def write_page_def)
next
  case False
  then have "len \<le> 128" by simp
  from read_page_ok [OF assms(1) this, of data T p] assms(2) False show ?thesis
    by (simp add: EEPROM_PAGE_SIZE_def)
qed

theorem read_page_unchecked_len_witness:
  "wf_state (startup (1::nat)) \<and> EEPROM_PAGE_SIZE \<le> length data_read0
   \<and> int EEPROM_PAGE_SIZE < 129
   \<and> fst (read_page (mock 0x29 0xFF 1) 0 data_read0 129 (startup (1::nat))) =
       Inl (OutOfBounds RX 131)
   \<and> fst (write_page (mock 0x29 0xFF 1) 2 0 data_read0 129 (startup (1::nat))) = Inr EXIT_FAILURE
   \<and> fst (read_page (mock 0x29 0xFF 1) 0 data_read0 128 (startup (1::nat))) = Inr EXIT_SUCCESS"
proof -
  have h1: "wf_state (startup (1::nat))" by (rule wf_startup)
  have h2: "EEPROM_PAGE_SIZE \<le> length data_read0"
    by (simp add: length_data_read0 EEPROM_PAGE_SIZE_def)
  have h3: "int EEPROM_PAGE_SIZE < 129" "\<not> int EEPROM_PAGE_SIZE < 128"
    by (simp_all add: EEPROM_PAGE_SIZE_def)
  have b: "BUF_SIZE = 131" by (simp add: BUF_SIZE_def EEPROM_PAGE_SIZE_def)
  note c = read_page_unchecked_len [OF h1 h2, of "mock 0x29 0xFF 1" 0 129 2]
    and d = read_page_unchecked_len [OF h1 h2, of "mock 0x29 0xFF 1" 0 128 2]
  from c d h1 h2 h3 show ?thesis by (simp add: b)
qed

text \<open>
  C10. The offset is computed in the 16-bit parameter: for any page address \<open>p\<close> the two
  address bytes \<open>write_page\<close> and \<open>read_page\<close> send are those of \<open>(p * 128) mod 2^16\<close>, so
  the calls for \<open>p\<close> and for \<open>p mod 512\<close> put the same frames on the bus.
\<close>

theorem page_address_wraps:
  fixes p :: u16
  defines "hi \<equiv> (ucast (drop_bit 8 (p * 128)) :: u8)"
  defines "lo \<equiv> (ucast (p * 128) :: u8)"
  assumes "wf_state s" and "0 \<le> len" and "len \<le> 128" and "nat len \<le> length data"
  shows "unat hi * 256 + unat lo = (unat p * 128) mod 2 ^ 16
       \<and> transport (trace (snd (write_page T fuel p data len s))) =
           transport (trace s)
           @ [SpiWrite [WREN], SpiWrite (WRITE # hi # lo # take (nat len) data)]
           @ replicate (polls T fuel (wr T (wr T (dev s) [WREN])
                          (WRITE # hi # lo # take (nat len) data)))
               (SpiRw [RDSR, 0])
       \<and> transport (trace (snd (snd (read_page T p data len s)))) =
           transport (trace s) @ [SpiRw (READ # hi # lo # take (nat len) (drop 3 (tx s)))]
       \<and> transport (trace (snd (write_page T fuel (word_of_nat (unat p mod 512)) data len s))) =
           transport (trace (snd (write_page T fuel p data len s)))
       \<and> read_page T (word_of_nat (unat p mod 512)) data len s = read_page T p data len s"
proof -
  have "unat hi * 256 + unat lo = (unat p * 128) mod 2 ^ 16"
    unfolding hi_def lo_def address_bytes by simp
  moreover have "read_page T (word_of_nat (unat p mod 512)) data len s = read_page T p data len s"
    by (simp add: read_page_def page_alias)
  ultimately show ?thesis
    unfolding hi_def lo_def
    using write_frame_transport [OF assms(3-6), of T fuel p]
      write_frame_transport [OF assms(3-6), of T fuel "word_of_nat (unat p mod 512)"]
      read_frame_transport [OF assms(3,4), of T p data]
    by (simp add: page_alias)
qed

theorem page_address_wraps_witness:
  "wf_state (startup (1::nat)) \<and> (0::int) \<le> 128 \<and> (128::int) \<le> 128 \<and> nat 128 \<le> length pattern
   \<and> unat (ucast (drop_bit 8 (513 * 128 :: u16)) :: u8) * 256
       + unat (ucast (513 * 128 :: u16) :: u8) = (unat (513 :: u16) * 128) mod 2 ^ 16
   \<and> (unat (513 :: u16) * 128) mod 2 ^ 16 = 128
   \<and> transport (trace (snd (write_page (mock 0x29 0xFF 1) 2 513 pattern 128 (startup (1::nat))))) =
       [SpiWrite [WREN], SpiWrite (WRITE # 0 # 0x80 # pattern), SpiRw [RDSR, 0], SpiRw [RDSR, 0]]
   \<and> transport (trace (snd (snd (read_page (mock 0x29 0xFF 1) 513 pattern 128 (startup (1::nat)))))) =
       [SpiRw (READ # 0 # 0x80 # replicate 128 0)]
   \<and> transport (trace (snd (write_page (mock 0x29 0xFF 1) 2 1 pattern 128 (startup (1::nat))))) =
       transport (trace (snd (write_page (mock 0x29 0xFF 1) 2 513 pattern 128 (startup (1::nat)))))
   \<and> read_page (mock 0x29 0xFF 1) 1 pattern 128 (startup (1::nat)) =
       read_page (mock 0x29 0xFF 1) 513 pattern 128 (startup (1::nat))"
proof -
  have h2: "wf_state (startup (1::nat))" by (rule wf_startup)
  have h3: "(0::int) \<le> 128" "(128::int) \<le> 128" "nat 128 \<le> length pattern"
    by (simp_all add: length_pattern)
  have r: "replicate 2 (SpiRw [RDSR, 0]) = [SpiRw [RDSR, 0], SpiRw [RDSR, 0]]"
    by (simp add: numeral_2_eq_2)
  have t: "take (nat 128) pattern = pattern" by (simp add: length_pattern)
  have x: "take (nat 128) (drop 3 (tx (startup (1::nat)))) = replicate 128 0"
    by (simp add: startup_def BUF_SIZE_def EEPROM_PAGE_SIZE_def)
  have e: "transport (trace (startup (1::nat))) = []" by (simp add: startup_def)
  have b: "(ucast (drop_bit 8 (513 * 128 :: u16)) :: u8) = 0" "(ucast (513 * 128 :: u16) :: u8) = 0x80"
    by simp_all
  have m: "(word_of_nat (unat (513 :: u16) mod 512) :: u16) = 1" by simp
  note c = page_address_wraps [OF h2 h3, of 513 "mock 0x29 0xFF 1" 2,
      unfolded mock_polls r t x e m]
  from c h2 h3 show ?thesis by (simp add: b)
qed

end
